theory Spec2Isabelle
  imports Main
begin

section \<open>The child-process supervisor of content/browser/browser_child_process_host.cc\<close>

text \<open>
  A shallow embedding of \<^verbatim>\<open>BrowserChildProcessHost\<close>: the process-wide list
  \<^verbatim>\<open>g_child_process_list\<close>, the objects on the C++ heap, and a log of everything a
  member function does to its collaborators (notifications posted to the UI thread,
  histogram samples, calls on the delegate, on the channel host and on the message loop).
  A member function is a function from the world to the world after the call; it is
  \<open>None\<close> where the C++ call has no defined behaviour (a call on a deleted object, a null
  \<^verbatim>\<open>child_process_\<close> dereferenced).

  The \<^verbatim>\<open>DCHECK\<close>s on the current thread are not modelled: every call of a run is a
  call on the IO thread. The delegate, the channel host, the launcher, the notification
  service and the histograms are collaborators outside the file: a call on one of them is
  an entry of the log, and it is taken not to call back into the host before it returns.
  The getters \<^verbatim>\<open>GetData\<close>, \<^verbatim>\<open>GetHost\<close> and \<^verbatim>\<open>GetHandle\<close> are \<^verbatim>\<open>const\<close> and change nothing; they
  are left out.
\<close>

subsection \<open>Data\<close>

type_synonym addr = nat
  \<comment> \<open>The identity of an object: \<^verbatim>\<open>this\<close> of a host, or a delegate pointer.\<close>

type_synonym ProcessHandle = nat

definition kNullProcessHandle :: ProcessHandle where
  "kNullProcessHandle = 0"

type_synonym ProcessType = nat
  \<comment> \<open>\<^verbatim>\<open>content::ProcessType\<close>, an enum declared outside the files at hand.\<close>

text \<open>
  Modelled from the spec: \<^verbatim>\<open>base::TerminationStatus\<close> is declared in
  base/process_util.h, which is not among the files at hand. The spec's termination status
  is "running, exited normally, crashed (abnormal termination / signal), killed"; the
  constructors are the enumerators \<^verbatim>\<open>OnChildDisconnected\<close> switches on, and the two it leaves
  to \<^verbatim>\<open>default\<close>.
\<close>

datatype TerminationStatus =
    TERMINATION_STATUS_NORMAL_TERMINATION
  | TERMINATION_STATUS_ABNORMAL_TERMINATION
  | TERMINATION_STATUS_PROCESS_WAS_KILLED
  | TERMINATION_STATUS_PROCESS_CRASHED
  | TERMINATION_STATUS_STILL_RUNNING
  | TERMINATION_STATUS_MAX_ENUM

text \<open>The three notification types the file posts (content/public/browser/notification_types.h).\<close>

datatype notification_type =
    NOTIFICATION_CHILD_PROCESS_HOST_CONNECTED
  | NOTIFICATION_CHILD_PROCESS_CRASHED
  | NOTIFICATION_CHILD_PROCESS_HOST_DISCONNECTED

text \<open>
  Modelled from the spec: \<^verbatim>\<open>content::ChildProcessData\<close> (child_process_data.h is not among
  the files at hand) is the spec's ProcessDescriptor: "a process-wide unique integer id, a
  process kind/category tag, a human-readable name, and an OS process handle (absent until
  launch completes)". Its constructor takes the type and leaves the handle null.
\<close>

record ChildProcessData =
  data_type :: ProcessType
  data_name :: string
  data_id :: int
  data_handle :: ProcessHandle

definition ChildProcessData_ctor :: "ProcessType \<Rightarrow> ChildProcessData" where
  "ChildProcessData_ctor t =
     \<lparr>data_type = t, data_name = [], data_id = 0, data_handle = kNullProcessHandle\<rparr>"

text \<open>
  \<^verbatim>\<open>child_process_\<close> is a \<^verbatim>\<open>scoped_ptr<ChildProcessLauncher>\<close>: null until \<^verbatim>\<open>Launch\<close>. The
  launcher itself is a collaborator: the model keeps that there is one, and logs what the
  host asks of it.
\<close>

datatype ChildProcessLauncher = ChildProcessLauncher

record BrowserChildProcessHost =
  data :: ChildProcessData
  delegate :: addr
  child_process :: "ChildProcessLauncher option"
  disconnect_was_alive :: bool

text \<open>Calls the host makes on its collaborators, in the order it makes them.\<close>

datatype delegate_call =
    Delegate_OnMessageReceived nat
  | Delegate_OnChannelConnected int
  | Delegate_OnChannelError
  | Delegate_CanShutdown
  | Delegate_OnProcessCrashed int
  | Delegate_OnProcessLaunched

datatype host_call =
    Host_AddFilter string
  | Host_ForceShutdown
  | Host_Send nat

datatype effect =
    Notified addr notification_type ChildProcessData
      \<comment> \<open>\<^verbatim>\<open>Notify(type)\<close> of host \<open>this\<close>: the task posted to the UI thread, with its copy of \<^verbatim>\<open>data_\<close>\<close>
  | Histogram string ProcessType
      \<comment> \<open>\<^verbatim>\<open>UMA_HISTOGRAM_ENUMERATION(name, data_.type, PROCESS_TYPE_MAX)\<close>\<close>
  | DelegateCall addr delegate_call
      \<comment> \<open>a call on \<^verbatim>\<open>delegate_\<close>\<close>
  | HostCall addr host_call
      \<comment> \<open>a call on \<^verbatim>\<open>child_process_host_\<close> of host \<open>this\<close>\<close>
  | StartWatching addr ProcessHandle
      \<comment> \<open>\<^verbatim>\<open>child_watcher_.StartWatching(new WaitableEvent(data_.handle), this)\<close>\<close>
  | PostDelayedTask addr nat
      \<comment> \<open>\<^verbatim>\<open>PostDelayedTask(OnChildDisconnected on a weak pointer to this, delay_ms)\<close>\<close>
  | LauncherCreated addr
      \<comment> \<open>\<^verbatim>\<open>new ChildProcessLauncher(..., this)\<close>\<close>
  | LauncherSetTerminateChildOnShutdown addr bool
      \<comment> \<open>\<^verbatim>\<open>child_process_->SetTerminateChildOnShutdown(b)\<close> of host \<open>this\<close>\<close>
  | Destroyed addr
      \<comment> \<open>\<^verbatim>\<open>~BrowserChildProcessHost\<close> of host \<open>this\<close> has run\<close>

record world =
  g_child_process_list :: "addr list"
  heap :: "addr \<rightharpoonup> BrowserChildProcessHost"
  next_object :: addr
  next_unique_id :: int
  trace :: "effect list"

text \<open>
  \<open>next_object\<close> is the allocator: \<^verbatim>\<open>new\<close> hands out identities in order and never
  one twice, so that a host is told apart from every host deleted before it (an address
  may come back after \<^verbatim>\<open>delete\<close>; an identity does not).
\<close>

definition initial_world :: world where
  "initial_world =
     \<lparr>g_child_process_list = [], heap = Map.empty, next_object = 0, next_unique_id = 1,
      trace = []\<rparr>"

text \<open>
  Modelled from the spec: \<^verbatim>\<open>ChildProcessHostImpl::GenerateChildProcessUniqueId\<close> is not among
  the files at hand; the spec's id is "a process-wide unique integer id (assigned at
  construction, never reused)". \<open>next_unique_id\<close> is that counter.
\<close>

definition GenerateChildProcessUniqueId :: "world \<Rightarrow> int \<times> world" where
  "GenerateChildProcessUniqueId w = (next_unique_id w, w\<lparr>next_unique_id := next_unique_id w + 1\<rparr>)"

datatype platform = OS_WIN | OS_POSIX

text \<open>
  What the operating system and the launcher answer when asked for a termination status:
  \<^verbatim>\<open>base::GetTerminationStatus(handle, &exit_code)\<close> and
  \<^verbatim>\<open>child_process_->GetChildTerminationStatus(&exit_code)\<close>. Both are outside the file; a
  call that asks takes the answers as an argument.
\<close>

record os_view =
  base_GetTerminationStatus :: "ProcessHandle \<Rightarrow> TerminationStatus \<times> int"
  GetChildTerminationStatus :: "TerminationStatus \<times> int"

subsection \<open>Member functions\<close>

definition emit :: "effect list \<Rightarrow> world \<Rightarrow> world" where
  "emit es w = w\<lparr>trace := trace w @ es\<rparr>"

definition store :: "addr \<Rightarrow> BrowserChildProcessHost \<Rightarrow> world \<Rightarrow> world" where
  "store this h w = w\<lparr>heap := (heap w)(this \<mapsto> h)\<rparr>"

text \<open>
  The constructor: \<^verbatim>\<open>data_(type)\<close>, \<^verbatim>\<open>delegate_(delegate)\<close>, \<^verbatim>\<open>disconnect_was_alive_(false)\<close>,
  the unique id, the channel host with its two filters, and \<^verbatim>\<open>push_back(this)\<close>.
  \<open>Create\<close> is \<^verbatim>\<open>new ::BrowserChildProcessHost(type, delegate)\<close>; it returns the new object too.
\<close>

definition Create :: "ProcessType \<Rightarrow> addr \<Rightarrow> world \<Rightarrow> addr \<times> world" where
  "Create t dlg w =
     (let this = next_object w;
          (uid, w1) = GenerateChildProcessUniqueId (w\<lparr>next_object := Suc this\<rparr>);
          h = \<lparr>data = (ChildProcessData_ctor t)\<lparr>data_id := uid\<rparr>, delegate = dlg,
               child_process = None, disconnect_was_alive = False\<rparr>;
          w2 = emit [HostCall this (Host_AddFilter ''TraceMessageFilter''),
                     HostCall this (Host_AddFilter ''ProfilerMessageFilter'')] (store this h w1)
      in (this, w2\<lparr>g_child_process_list := g_child_process_list w2 @ [this]\<rparr>))"

text \<open>
  \<^verbatim>\<open>delete p\<close>: the destructor runs \<^verbatim>\<open>g_child_process_list.Get().remove(this)\<close>
  (\<^verbatim>\<open>std::list::remove\<close> erases every element equal to its argument), then the object
  is gone. Deleting what is not a live object is undefined.
\<close>

definition delete_host :: "addr \<Rightarrow> world \<Rightarrow> world option" where
  "delete_host this w =
     (case heap w this of
        None \<Rightarrow> None
      | Some h \<Rightarrow>
          Some (w\<lparr>g_child_process_list := removeAll this (g_child_process_list w),
                 heap := (heap w)(this := None),
                 trace := trace w @ [Destroyed this]\<rparr>))"

text \<open>
  \<^verbatim>\<open>STLDeleteElements(&copy)\<close> (base/stl_util.h) deletes each pointer of the container from
  the first to the last, then clears the container.
\<close>

fun STLDeleteElements :: "addr list \<Rightarrow> world \<Rightarrow> world option" where
  "STLDeleteElements [] w = Some w"
| "STLDeleteElements (p # ps) w =
     (case delete_host p w of None \<Rightarrow> None | Some w' \<Rightarrow> STLDeleteElements ps w')"

definition TerminateAll :: "world \<Rightarrow> world option" where
  "TerminateAll w = (let copy = g_child_process_list w in STLDeleteElements copy w)"

definition Launch :: "addr \<Rightarrow> world \<Rightarrow> world option" where
  "Launch this w =
     (case heap w this of
        None \<Rightarrow> None
      | Some h \<Rightarrow>
          Some (emit [LauncherCreated this]
                  (store this (h\<lparr>child_process := Some ChildProcessLauncher\<rparr>) w)))"

definition SetName :: "string \<Rightarrow> addr \<Rightarrow> world \<Rightarrow> world option" where
  "SetName name this w =
     (case heap w this of
        None \<Rightarrow> None
      | Some h \<Rightarrow> Some (store this (h\<lparr>data := (data h)\<lparr>data_name := name\<rparr>\<rparr>) w))"

definition SetHandle :: "ProcessHandle \<Rightarrow> addr \<Rightarrow> world \<Rightarrow> world option" where
  "SetHandle handle this w =
     (case heap w this of
        None \<Rightarrow> None
      | Some h \<Rightarrow> Some (store this (h\<lparr>data := (data h)\<lparr>data_handle := handle\<rparr>\<rparr>) w))"

definition ForceShutdown :: "addr \<Rightarrow> world \<Rightarrow> world option" where
  "ForceShutdown this w =
     (case heap w this of
        None \<Rightarrow> None
      | Some h \<Rightarrow>
          Some (emit [HostCall this Host_ForceShutdown]
                  (w\<lparr>g_child_process_list := removeAll this (g_child_process_list w)\<rparr>)))"

definition SetTerminateChildOnShutdown :: "bool \<Rightarrow> addr \<Rightarrow> world \<Rightarrow> world option" where
  "SetTerminateChildOnShutdown terminate_on_shutdown this w =
     (case heap w this of
        None \<Rightarrow> None
      | Some h \<Rightarrow>
          (case child_process h of
             None \<Rightarrow> None
           | Some l \<Rightarrow>
               Some (emit [LauncherSetTerminateChildOnShutdown this terminate_on_shutdown] w)))"

definition Notify :: "notification_type \<Rightarrow> addr \<Rightarrow> BrowserChildProcessHost \<Rightarrow> world \<Rightarrow> world" where
  "Notify type this h w = emit [Notified this type (data h)] w"

definition UMA_HISTOGRAM_ENUMERATION :: "string \<Rightarrow> ProcessType \<Rightarrow> world \<Rightarrow> world" where
  "UMA_HISTOGRAM_ENUMERATION name sample w = emit [Histogram name sample] w"

definition GetTerminationStatus :: "os_view \<Rightarrow> BrowserChildProcessHost \<Rightarrow> TerminationStatus \<times> int" where
  "GetTerminationStatus os h =
     (case child_process h of
        None \<Rightarrow> base_GetTerminationStatus os (data_handle (data h))
      | Some l \<Rightarrow> GetChildTerminationStatus os)"

definition OnMessageReceived :: "nat \<Rightarrow> addr \<Rightarrow> world \<Rightarrow> world option" where
  "OnMessageReceived message this w =
     (case heap w this of
        None \<Rightarrow> None
      | Some h \<Rightarrow> Some (emit [DelegateCall (delegate h) (Delegate_OnMessageReceived message)] w))"

definition OnChannelConnected :: "int \<Rightarrow> addr \<Rightarrow> world \<Rightarrow> world option" where
  "OnChannelConnected peer_pid this w =
     (case heap w this of
        None \<Rightarrow> None
      | Some h \<Rightarrow>
          Some (emit [DelegateCall (delegate h) (Delegate_OnChannelConnected peer_pid)]
                  (Notify NOTIFICATION_CHILD_PROCESS_HOST_CONNECTED this h w)))"

definition OnChannelError :: "addr \<Rightarrow> world \<Rightarrow> world option" where
  "OnChannelError this w =
     (case heap w this of
        None \<Rightarrow> None
      | Some h \<Rightarrow> Some (emit [DelegateCall (delegate h) Delegate_OnChannelError] w))"

definition CanShutdown :: "addr \<Rightarrow> world \<Rightarrow> world option" where
  "CanShutdown this w =
     (case heap w this of
        None \<Rightarrow> None
      | Some h \<Rightarrow> Some (emit [DelegateCall (delegate h) Delegate_CanShutdown] w))"

definition kExitCodeWaitMs :: nat where
  "kExitCodeWaitMs = 250"

text \<open>
  The tail of \<^verbatim>\<open>OnChildDisconnected\<close> after the switch: the Disconnected histogram, the
  notification, \<^verbatim>\<open>delete this\<close>.
\<close>

definition disconnect_and_delete :: "addr \<Rightarrow> BrowserChildProcessHost \<Rightarrow> world \<Rightarrow> world option" where
  "disconnect_and_delete this h w =
     delete_host this
       (Notify NOTIFICATION_CHILD_PROCESS_HOST_DISCONNECTED this h
          (UMA_HISTOGRAM_ENUMERATION ''ChildProcess.Disconnected'' (data_type (data h)) w))"

definition report_crashed :: "int \<Rightarrow> addr \<Rightarrow> BrowserChildProcessHost \<Rightarrow> world \<Rightarrow> world" where
  "report_crashed exit_code this h w =
     (let w1 = emit [DelegateCall (delegate h) (Delegate_OnProcessCrashed exit_code)] w;
          w2 = Notify NOTIFICATION_CHILD_PROCESS_CRASHED this h w1;
          w3 = UMA_HISTOGRAM_ENUMERATION ''ChildProcess.Crashed'' (data_type (data h)) w2
      in if disconnect_was_alive h
         then UMA_HISTOGRAM_ENUMERATION ''ChildProcess.CrashedWasAlive'' (data_type (data h)) w3
         else w3)"

definition report_killed :: "BrowserChildProcessHost \<Rightarrow> world \<Rightarrow> world" where
  "report_killed h w =
     (let w1 = UMA_HISTOGRAM_ENUMERATION ''ChildProcess.Killed'' (data_type (data h)) w
      in if disconnect_was_alive h
         then UMA_HISTOGRAM_ENUMERATION ''ChildProcess.KilledWasAlive'' (data_type (data h)) w1
         else w1)"

text \<open>
  The first still-running observation: the flag is set and the re-check is scheduled, by
  \<^verbatim>\<open>StartWatching\<close> under \<^verbatim>\<open>OS_WIN\<close> and by a task delayed by \<open>kExitCodeWaitMs\<close> elsewhere.
\<close>

definition wait_for_exit_code :: "platform \<Rightarrow> addr \<Rightarrow> BrowserChildProcessHost \<Rightarrow> world \<Rightarrow> world" where
  "wait_for_exit_code pf this h w =
     (let w1 = store this (h\<lparr>disconnect_was_alive := True\<rparr>) w
      in case pf of
           OS_WIN \<Rightarrow> emit [StartWatching this (data_handle (data h))] w1
         | OS_POSIX \<Rightarrow> emit [PostDelayedTask this kExitCodeWaitMs] w1)"

definition OnChildDisconnected :: "platform \<Rightarrow> os_view \<Rightarrow> addr \<Rightarrow> world \<Rightarrow> world option" where
  "OnChildDisconnected pf os this w =
     (case heap w this of
        None \<Rightarrow> None
      | Some h \<Rightarrow>
          (case GetTerminationStatus os h of
             (status, exit_code) \<Rightarrow>
               (case status of
                  TERMINATION_STATUS_PROCESS_CRASHED \<Rightarrow>
                    disconnect_and_delete this h (report_crashed exit_code this h w)
                | TERMINATION_STATUS_ABNORMAL_TERMINATION \<Rightarrow>
                    disconnect_and_delete this h (report_crashed exit_code this h w)
                | TERMINATION_STATUS_PROCESS_WAS_KILLED \<Rightarrow>
                    disconnect_and_delete this h (report_killed h w)
                | TERMINATION_STATUS_STILL_RUNNING \<Rightarrow>
                    (if disconnect_was_alive h
                     then disconnect_and_delete this h
                            (UMA_HISTOGRAM_ENUMERATION ''ChildProcess.DisconnectedAlive''
                               (data_type (data h)) w)
                     else Some (wait_for_exit_code pf this h w))
                | TERMINATION_STATUS_NORMAL_TERMINATION \<Rightarrow> disconnect_and_delete this h w
                | TERMINATION_STATUS_MAX_ENUM \<Rightarrow> disconnect_and_delete this h w)))"

text \<open>
  The \<^verbatim>\<open>DCHECK\<close> at the head of \<^verbatim>\<open>OnChildDisconnected\<close>. It is compiled out of release
  builds, so the function above does not test it; no theorem below needs it.
\<close>

definition OnChildDisconnected_DCHECK :: "BrowserChildProcessHost \<Rightarrow> bool" where
  "OnChildDisconnected_DCHECK h \<longleftrightarrow> data_handle (data h) \<noteq> kNullProcessHandle"

definition STILL_ACTIVE :: nat where
  "STILL_ACTIVE = 259"

text \<open>
  \<open>exit_code\<close> is what \<^verbatim>\<open>GetExitCodeProcess\<close> wrote. The body is inside
  \<^verbatim>\<open>#if defined (OS_WIN)\<close>: elsewhere the function does nothing.
\<close>

definition OnWaitableEventSignaled :: "platform \<Rightarrow> nat \<Rightarrow> os_view \<Rightarrow> addr \<Rightarrow> world \<Rightarrow> world option" where
  "OnWaitableEventSignaled pf exit_code os this w =
     (case heap w this of
        None \<Rightarrow> None
      | Some h \<Rightarrow>
          (case pf of
             OS_WIN \<Rightarrow>
               if exit_code = STILL_ACTIVE then delete_host this w
               else OnChildDisconnected pf os this w
           | OS_POSIX \<Rightarrow> Some w))"

definition Send :: "nat \<Rightarrow> addr \<Rightarrow> world \<Rightarrow> world option" where
  "Send message this w =
     (case heap w this of
        None \<Rightarrow> None
      | Some h \<Rightarrow> Some (emit [HostCall this (Host_Send message)] w))"

definition ShutdownStarted :: "addr \<Rightarrow> world \<Rightarrow> world option" where
  "ShutdownStarted this w =
     (case heap w this of
        None \<Rightarrow> None
      | Some h \<Rightarrow> Some (w\<lparr>g_child_process_list := removeAll this (g_child_process_list w)\<rparr>))"

text \<open>
  \<open>launcher_handle\<close> is what \<^verbatim>\<open>child_process_->GetHandle()\<close> returns, the launcher being a
  collaborator. The launcher calls back only after \<^verbatim>\<open>Launch\<close> created it; with
  \<^verbatim>\<open>child_process_\<close> null the dereference is undefined.
\<close>

definition OnProcessLaunched :: "ProcessHandle \<Rightarrow> addr \<Rightarrow> world \<Rightarrow> world option" where
  "OnProcessLaunched launcher_handle this w =
     (case heap w this of
        None \<Rightarrow> None
      | Some h \<Rightarrow>
          (case child_process h of
             None \<Rightarrow> None
           | Some l \<Rightarrow>
               if launcher_handle = kNullProcessHandle then delete_host this w
               else Some (emit [DelegateCall (delegate h) Delegate_OnProcessLaunched]
                            (store this (h\<lparr>data := (data h)\<lparr>data_handle := launcher_handle\<rparr>\<rparr>) w))))"

subsection \<open>Runs\<close>

text \<open>
  A lifetime is a sequence of calls: by the owner of a host, by its channel, by its
  launcher, by the message loop. Nothing is assumed of the order, but that no call is made
  on a deleted host.
\<close>

datatype call =
    Call_Create ProcessType addr
  | Call_delete addr
  | Call_TerminateAll
  | Call_Launch addr
  | Call_SetName addr string
  | Call_SetHandle addr ProcessHandle
  | Call_ForceShutdown addr
  | Call_SetTerminateChildOnShutdown addr bool
  | Call_OnMessageReceived addr nat
  | Call_OnChannelConnected addr int
  | Call_OnChannelError addr
  | Call_CanShutdown addr
  | Call_OnChildDisconnected addr os_view
  | Call_OnWaitableEventSignaled addr nat os_view
  | Call_Send addr nat
  | Call_ShutdownStarted addr
  | Call_OnProcessLaunched addr ProcessHandle

fun step :: "platform \<Rightarrow> call \<Rightarrow> world \<Rightarrow> world option" where
  "step pf (Call_Create t dlg) w = Some (snd (Create t dlg w))"
| "step pf (Call_delete this) w = delete_host this w"
| "step pf Call_TerminateAll w = TerminateAll w"
| "step pf (Call_Launch this) w = Launch this w"
| "step pf (Call_SetName this name) w = SetName name this w"
| "step pf (Call_SetHandle this handle) w = SetHandle handle this w"
| "step pf (Call_ForceShutdown this) w = ForceShutdown this w"
| "step pf (Call_SetTerminateChildOnShutdown this b) w = SetTerminateChildOnShutdown b this w"
| "step pf (Call_OnMessageReceived this m) w = OnMessageReceived m this w"
| "step pf (Call_OnChannelConnected this peer_pid) w = OnChannelConnected peer_pid this w"
| "step pf (Call_OnChannelError this) w = OnChannelError this w"
| "step pf (Call_CanShutdown this) w = CanShutdown this w"
| "step pf (Call_OnChildDisconnected this os) w = OnChildDisconnected pf os this w"
| "step pf (Call_OnWaitableEventSignaled this exit_code os) w =
     OnWaitableEventSignaled pf exit_code os this w"
| "step pf (Call_Send this m) w = Send m this w"
| "step pf (Call_ShutdownStarted this) w = ShutdownStarted this w"
| "step pf (Call_OnProcessLaunched this launcher_handle) w =
     OnProcessLaunched launcher_handle this w"

fun run :: "platform \<Rightarrow> call list \<Rightarrow> world \<Rightarrow> world option" where
  "run pf [] w = Some w"
| "run pf (c # cs) w = (case step pf c w of None \<Rightarrow> None | Some w' \<Rightarrow> run pf cs w')"

subsection \<open>Observations on the log\<close>

fun notifications_of :: "addr \<Rightarrow> effect list \<Rightarrow> notification_type list" where
  "notifications_of p [] = []"
| "notifications_of p (Notified q t d # es) =
     (if q = p then t # notifications_of p es else notifications_of p es)"
| "notifications_of p (e # es) = notifications_of p es"

fun retries_of :: "addr \<Rightarrow> effect list \<Rightarrow> nat" where
  "retries_of p [] = 0"
| "retries_of p (StartWatching q handle # es) = (if q = p then Suc (retries_of p es) else retries_of p es)"
| "retries_of p (PostDelayedTask q ms # es) = (if q = p then Suc (retries_of p es) else retries_of p es)"
| "retries_of p (e # es) = retries_of p es"

definition counter :: "string \<Rightarrow> ProcessType \<Rightarrow> world \<Rightarrow> nat" where
  "counter name t w = count_list (trace w) (Histogram name t)"

text \<open>
  A call observes "still running" on host \<open>p\<close>, whose state before the call is \<open>h\<close>,
  when it runs \<^verbatim>\<open>OnChildDisconnected\<close> on \<open>p\<close> and the status it reads is
  \<^verbatim>\<open>TERMINATION_STATUS_STILL_RUNNING\<close>: called directly, or from
  \<^verbatim>\<open>OnWaitableEventSignaled\<close> (under \<^verbatim>\<open>OS_WIN\<close>, exit code other than \<open>STILL_ACTIVE\<close>).
\<close>

fun still_running_observed :: "platform \<Rightarrow> addr \<Rightarrow> BrowserChildProcessHost \<Rightarrow> call \<Rightarrow> bool" where
  "still_running_observed pf p h (Call_OnChildDisconnected q os) =
     (q = p \<and> fst (GetTerminationStatus os h) = TERMINATION_STATUS_STILL_RUNNING)"
| "still_running_observed pf p h (Call_OnWaitableEventSignaled q exit_code os) =
     (q = p \<and> pf = OS_WIN \<and> exit_code \<noteq> STILL_ACTIVE \<and>
      fst (GetTerminationStatus os h) = TERMINATION_STATUS_STILL_RUNNING)"
| "still_running_observed pf p h c = False"

fun observed_still_running :: "platform \<Rightarrow> addr \<Rightarrow> call list \<Rightarrow> world \<Rightarrow> bool" where
  "observed_still_running pf p [] w = False"
| "observed_still_running pf p (c # cs) w =
     ((case heap w p of None \<Rightarrow> False | Some h \<Rightarrow> still_running_observed pf p h c) \<or>
      (case step pf c w of None \<Rightarrow> False | Some w' \<Rightarrow> observed_still_running pf p cs w'))"

text \<open>
  A call runs \<^verbatim>\<open>OnChildDisconnected\<close> on host \<open>p\<close>, whose state before the call is \<open>h\<close>, to
  its tail (the Disconnected sample, the disconnected notification, \<^verbatim>\<open>delete this\<close>) when
  it does not leave by the \<^verbatim>\<open>return\<close> of the still-running branch, which is taken when the
  status is \<^verbatim>\<open>TERMINATION_STATUS_STILL_RUNNING\<close> and the flag is false. The function is
  called directly, or from \<^verbatim>\<open>OnWaitableEventSignaled\<close> (under \<^verbatim>\<open>OS_WIN\<close>, exit code other than
  \<open>STILL_ACTIVE\<close>). \<open>disconnected_in_run\<close> says that some call of a run does so.
\<close>

fun runs_to_tail :: "platform \<Rightarrow> addr \<Rightarrow> BrowserChildProcessHost \<Rightarrow> call \<Rightarrow> bool" where
  "runs_to_tail pf p h (Call_OnChildDisconnected q os) =
     (q = p \<and>
      \<not> (fst (GetTerminationStatus os h) = TERMINATION_STATUS_STILL_RUNNING \<and>
         \<not> disconnect_was_alive h))"
| "runs_to_tail pf p h (Call_OnWaitableEventSignaled q exit_code os) =
     (q = p \<and> pf = OS_WIN \<and> exit_code \<noteq> STILL_ACTIVE \<and>
      \<not> (fst (GetTerminationStatus os h) = TERMINATION_STATUS_STILL_RUNNING \<and>
         \<not> disconnect_was_alive h))"
| "runs_to_tail pf p h c = False"

definition tail_reached :: "platform \<Rightarrow> addr \<Rightarrow> world \<Rightarrow> call \<Rightarrow> bool" where
  "tail_reached pf p w c \<longleftrightarrow>
     (case heap w p of None \<Rightarrow> False | Some h \<Rightarrow> runs_to_tail pf p h c)"

fun disconnected_in_run :: "platform \<Rightarrow> addr \<Rightarrow> call list \<Rightarrow> world \<Rightarrow> bool" where
  "disconnected_in_run pf p [] w = False"
| "disconnected_in_run pf p (c # cs) w =
     (tail_reached pf p w c \<or>
      (case step pf c w of None \<Rightarrow> False | Some w' \<Rightarrow> disconnected_in_run pf p cs w'))"

text \<open>
  The value a call writes to \<^verbatim>\<open>data_.handle\<close> of host \<open>p\<close>: \<^verbatim>\<open>SetHandle\<close> writes its
  argument, \<^verbatim>\<open>OnProcessLaunched\<close> the launcher's handle when it is not null.
\<close>

fun handle_written :: "addr \<Rightarrow> call \<Rightarrow> ProcessHandle option" where
  "handle_written p (Call_SetHandle q handle) = (if q = p then Some handle else None)"
| "handle_written p (Call_OnProcessLaunched q launcher_handle) =
     (if q = p \<and> launcher_handle \<noteq> kNullProcessHandle then Some launcher_handle else None)"
| "handle_written p c = None"

definition handle_writes :: "addr \<Rightarrow> call list \<Rightarrow> ProcessHandle list" where
  "handle_writes p cs = List.map_filter (handle_written p) cs"

subsection \<open>Invariants\<close>

text \<open>
  The list holds live hosts, each once, and every live host was handed out by the allocator.
\<close>

definition wf_world :: "world \<Rightarrow> bool" where
  "wf_world w \<longleftrightarrow>
     distinct (g_child_process_list w) \<and>
     (\<forall>p \<in> set (g_child_process_list w). heap w p \<noteq> None) \<and>
     (\<forall>p. heap w p \<noteq> None \<longrightarrow> p < next_object w)"

text \<open>The notifications of a call of \<^verbatim>\<open>OnChildDisconnected\<close> that deletes the host.\<close>

definition terminal_pair :: "notification_type list \<Rightarrow> bool" where
  "terminal_pair ns \<longleftrightarrow>
     ns = [NOTIFICATION_CHILD_PROCESS_HOST_DISCONNECTED] \<or>
     ns = [NOTIFICATION_CHILD_PROCESS_CRASHED, NOTIFICATION_CHILD_PROCESS_HOST_DISCONNECTED]"

text \<open>
  What one call adds to the notifications of host \<open>p\<close>: nothing, the connected
  notification, or the terminal ones, after which \<open>p\<close> is gone.
\<close>

definition notified_in_call :: "addr \<Rightarrow> world \<Rightarrow> world \<Rightarrow> bool" where
  "notified_in_call p w w' \<longleftrightarrow>
     (\<exists>ns. notifications_of p (trace w') = notifications_of p (trace w) @ ns \<and>
        (heap w p = None \<longrightarrow> ns = []) \<and>
        (ns = [] \<or> ns = [NOTIFICATION_CHILD_PROCESS_HOST_CONNECTED] \<or>
         (terminal_pair ns \<and> heap w' p = None)))"

text \<open>
  The notifications of host \<open>p\<close> so far: none is the disconnected one, or it is there
  once, last, and \<open>p\<close> has been deleted.
\<close>

definition terminal_once :: "addr \<Rightarrow> world \<Rightarrow> bool" where
  "terminal_once p w \<longleftrightarrow>
     (let ns = notifications_of p (trace w) in
      (NOTIFICATION_CHILD_PROCESS_HOST_DISCONNECTED \<notin> set ns \<and> (next_object w \<le> p \<longrightarrow> ns = [])) \<or>
      (count_list ns NOTIFICATION_CHILD_PROCESS_HOST_DISCONNECTED = 1 \<and>
       last ns = NOTIFICATION_CHILD_PROCESS_HOST_DISCONNECTED \<and>
       heap w p = None \<and> p < next_object w))"

text \<open>The call observes "still running" on \<open>p\<close> while its flag is still false.\<close>

definition first_observation :: "platform \<Rightarrow> addr \<Rightarrow> world \<Rightarrow> call \<Rightarrow> bool" where
  "first_observation pf p w c \<longleftrightarrow>
     (case heap w p of
        None \<Rightarrow> False
      | Some h \<Rightarrow> \<not> disconnect_was_alive h \<and> still_running_observed pf p h c)"

text \<open>The scheduled re-checks of one host: none, or one and the flag is set.\<close>

definition retried_once :: "addr \<Rightarrow> world \<Rightarrow> bool" where
  "retried_once p w \<longleftrightarrow>
     retries_of p (trace w) = 0 \<or>
     (retries_of p (trace w) = 1 \<and> p < next_object w \<and>
      (case heap w p of None \<Rightarrow> True | Some h \<Rightarrow> disconnect_was_alive h))"

subsection \<open>Example values\<close>

text \<open>
  An operating system that gives one answer, and the world after
  \<^verbatim>\<open>Create(3, delegate 7)\<close> and \<^verbatim>\<open>SetHandle(5)\<close> on the new host.
\<close>

definition example_os :: "TerminationStatus \<Rightarrow> int \<Rightarrow> os_view" where
  "example_os status exit_code =
     \<lparr>base_GetTerminationStatus = (\<lambda>handle. (status, exit_code)),
      GetChildTerminationStatus = (status, exit_code)\<rparr>"

definition example_host :: BrowserChildProcessHost where
  "example_host =
     \<lparr>data = \<lparr>data_type = 3, data_name = [], data_id = 1, data_handle = 5\<rparr>,
      delegate = 7, child_process = None, disconnect_was_alive = False\<rparr>"

definition example_world :: world where
  "example_world =
     \<lparr>g_child_process_list = [0], heap = [0 \<mapsto> example_host], next_object = 1,
      next_unique_id = 2,
      trace = [HostCall 0 (Host_AddFilter ''TraceMessageFilter''),
               HostCall 0 (Host_AddFilter ''ProfilerMessageFilter'')]\<rparr>"

text \<open>
  The same world after a first "still running" observation outside Windows, and the world
  after \<^verbatim>\<open>Create\<close> and \<^verbatim>\<open>Launch\<close>.
\<close>

definition example_host_alive :: BrowserChildProcessHost where
  "example_host_alive = example_host\<lparr>disconnect_was_alive := True\<rparr>"

definition example_world_alive :: world where
  "example_world_alive =
     example_world\<lparr>heap := [0 \<mapsto> example_host_alive],
                    trace := trace example_world @ [PostDelayedTask 0 250]\<rparr>"

definition example_host_launching :: BrowserChildProcessHost where
  "example_host_launching =
     \<lparr>data = \<lparr>data_type = 3, data_name = [], data_id = 1, data_handle = 0\<rparr>,
      delegate = 7, child_process = Some ChildProcessLauncher,
      disconnect_was_alive = False\<rparr>"

definition example_world_launching :: world where
  "example_world_launching =
     \<lparr>g_child_process_list = [0], heap = [0 \<mapsto> example_host_launching], next_object = 1,
      next_unique_id = 2,
      trace = [HostCall 0 (Host_AddFilter ''TraceMessageFilter''),
               HostCall 0 (Host_AddFilter ''ProfilerMessageFilter''),
               LauncherCreated 0]\<rparr>"

subsection \<open>Example lifetimes\<close>

text \<open>
  What a whole lifetime, run from the initial world, leaves of host \<open>p\<close>: its
  notifications, whether it has been destroyed, its handle. Then three lifetimes of one
  host: under Windows, a disconnect seen alive and then an exit code equal to
  \<open>STILL_ACTIVE\<close>; a launch whose launcher reports no handle; a connection, a disconnect
  seen alive, and a crash found at the re-check.
\<close>

definition notifications_after :: "platform \<Rightarrow> call list \<Rightarrow> addr \<Rightarrow> notification_type list option" where
  "notifications_after pf cs p =
     (case run pf cs initial_world of
        None \<Rightarrow> None
      | Some w \<Rightarrow> Some (notifications_of p (trace w)))"

definition destroyed_after :: "platform \<Rightarrow> call list \<Rightarrow> addr \<Rightarrow> bool" where
  "destroyed_after pf cs p =
     (case run pf cs initial_world of
        None \<Rightarrow> False
      | Some w \<Rightarrow> heap w p = None \<and> Destroyed p \<in> set (trace w))"

definition handle_after :: "platform \<Rightarrow> call list \<Rightarrow> addr \<Rightarrow> ProcessHandle option" where
  "handle_after pf cs p =
     (case run pf cs initial_world of
        None \<Rightarrow> None
      | Some w \<Rightarrow> (case heap w p of None \<Rightarrow> None | Some h \<Rightarrow> Some (data_handle (data h))))"

definition lifetime_still_active :: "call list" where
  "lifetime_still_active =
     [Call_Create 3 7, Call_SetHandle 0 5,
      Call_OnChildDisconnected 0 (example_os TERMINATION_STATUS_STILL_RUNNING 0),
      Call_OnWaitableEventSignaled 0 STILL_ACTIVE (example_os TERMINATION_STATUS_STILL_RUNNING 0)]"

definition lifetime_launch_failed :: "call list" where
  "lifetime_launch_failed =
     [Call_Create 3 7, Call_Launch 0, Call_OnProcessLaunched 0 kNullProcessHandle]"

definition lifetime_crashed :: "call list" where
  "lifetime_crashed =
     [Call_Create 3 7, Call_SetHandle 0 5,
      Call_OnChannelConnected 0 42,
      Call_OnChildDisconnected 0 (example_os TERMINATION_STATUS_STILL_RUNNING 0),
      Call_OnChildDisconnected 0 (example_os TERMINATION_STATUS_PROCESS_CRASHED 11)]"

text \<open>
  Two more lifetimes of one host, neither of which runs \<^verbatim>\<open>OnChildDisconnected\<close> to its
  tail: the host is deleted by \<^verbatim>\<open>TerminateAll\<close>; it is deleted by its owner while the
  re-check is pending.
\<close>

definition lifetime_terminate_all :: "call list" where
  "lifetime_terminate_all =
     [Call_Create 3 7, Call_SetHandle 0 5, Call_OnChannelConnected 0 42, Call_TerminateAll]"

definition lifetime_owner_delete :: "call list" where
  "lifetime_owner_delete =
     [Call_Create 3 7, Call_SetHandle 0 5,
      Call_OnChildDisconnected 0 (example_os TERMINATION_STATUS_STILL_RUNNING 0),
      Call_delete 0]"

section \<open>Properties\<close>

subsection \<open>What the member functions change\<close>

lemma notifications_of_append:
  "notifications_of p (xs @ ys) = notifications_of p xs @ notifications_of p ys"
  by (induction p xs rule: notifications_of.induct) auto

lemma retries_of_append:
  "retries_of p (xs @ ys) = retries_of p xs + retries_of p ys"
  by (induction p xs rule: retries_of.induct) auto

lemma emit_sel [simp]:
  "trace (emit es w) = trace w @ es"
  "heap (emit es w) = heap w"
  "g_child_process_list (emit es w) = g_child_process_list w"
  "next_object (emit es w) = next_object w"
  by (simp_all add: emit_def)

lemma store_sel [simp]:
  "trace (store p h w) = trace w"
  "heap (store p h w) = (heap w)(p \<mapsto> h)"
  "g_child_process_list (store p h w) = g_child_process_list w"
  "next_object (store p h w) = next_object w"
  by (simp_all add: store_def)

lemma Notify_sel [simp]:
  "trace (Notify t p h w) = trace w @ [Notified p t (data h)]"
  "heap (Notify t p h w) = heap w"
  "g_child_process_list (Notify t p h w) = g_child_process_list w"
  "next_object (Notify t p h w) = next_object w"
  by (simp_all add: Notify_def)

lemma UMA_sel [simp]:
  "trace (UMA_HISTOGRAM_ENUMERATION n t w) = trace w @ [Histogram n t]"
  "heap (UMA_HISTOGRAM_ENUMERATION n t w) = heap w"
  "g_child_process_list (UMA_HISTOGRAM_ENUMERATION n t w) = g_child_process_list w"
  "next_object (UMA_HISTOGRAM_ENUMERATION n t w) = next_object w"
  by (simp_all add: UMA_HISTOGRAM_ENUMERATION_def)

lemma report_crashed_sel [simp]:
  "trace (report_crashed e p h w) = trace w @
     [DelegateCall (delegate h) (Delegate_OnProcessCrashed e),
      Notified p NOTIFICATION_CHILD_PROCESS_CRASHED (data h),
      Histogram ''ChildProcess.Crashed'' (data_type (data h))] @
     (if disconnect_was_alive h
      then [Histogram ''ChildProcess.CrashedWasAlive'' (data_type (data h))] else [])"
  "heap (report_crashed e p h w) = heap w"
  "g_child_process_list (report_crashed e p h w) = g_child_process_list w"
  "next_object (report_crashed e p h w) = next_object w"
  by (simp_all add: report_crashed_def Let_def)

lemma report_killed_sel [simp]:
  "trace (report_killed h w) = trace w @
     Histogram ''ChildProcess.Killed'' (data_type (data h)) #
     (if disconnect_was_alive h
      then [Histogram ''ChildProcess.KilledWasAlive'' (data_type (data h))] else [])"
  "heap (report_killed h w) = heap w"
  "g_child_process_list (report_killed h w) = g_child_process_list w"
  "next_object (report_killed h w) = next_object w"
  by (simp_all add: report_killed_def Let_def)

lemma wait_for_exit_code_sel [simp]:
  "trace (wait_for_exit_code pf p h w) = trace w @
     [case pf of OS_WIN \<Rightarrow> StartWatching p (data_handle (data h))
               | OS_POSIX \<Rightarrow> PostDelayedTask p kExitCodeWaitMs]"
  "heap (wait_for_exit_code pf p h w) = (heap w)(p \<mapsto> h\<lparr>disconnect_was_alive := True\<rparr>)"
  "g_child_process_list (wait_for_exit_code pf p h w) = g_child_process_list w"
  "next_object (wait_for_exit_code pf p h w) = next_object w"
  by (simp_all add: wait_for_exit_code_def Let_def split: platform.splits)

lemma delete_host_SomeD:
  assumes "delete_host p w = Some w'"
  shows "heap w p \<noteq> None"
    and "trace w' = trace w @ [Destroyed p]"
    and "heap w' = (heap w)(p := None)"
    and "g_child_process_list w' = removeAll p (g_child_process_list w)"
    and "next_object w' = next_object w"
  using assms by (auto simp: delete_host_def split: option.splits)

lemma delete_host_Some:
  "heap w p = Some h \<Longrightarrow> \<exists>w'. delete_host p w = Some w'"
  by (simp add: delete_host_def)

lemma disconnect_and_delete_SomeD:
  assumes "disconnect_and_delete p h w = Some w'"
  shows "heap w p \<noteq> None"
    and "trace w' = trace w @
           [Histogram ''ChildProcess.Disconnected'' (data_type (data h)),
            Notified p NOTIFICATION_CHILD_PROCESS_HOST_DISCONNECTED (data h),
            Destroyed p]"
    and "heap w' = (heap w)(p := None)"
    and "g_child_process_list w' = removeAll p (g_child_process_list w)"
    and "next_object w' = next_object w"
  using assms by (auto simp: disconnect_and_delete_def dest: delete_host_SomeD)

lemma disconnect_and_delete_Some:
  "heap w p = Some h' \<Longrightarrow> \<exists>w'. disconnect_and_delete p h w = Some w'"
  by (simp add: disconnect_and_delete_def delete_host_def)

text \<open>What a call of OnChildDisconnected that returns has done, in two cases.\<close>

lemma OnChildDisconnected_cases:
  assumes "OnChildDisconnected pf os this w = Some w'"
  obtains
    (waiting) h where
      "heap w this = Some h" "\<not> disconnect_was_alive h"
      "fst (GetTerminationStatus os h) = TERMINATION_STATUS_STILL_RUNNING"
      "w' = wait_for_exit_code pf this h w"
  | (terminal) h w1 where
      "heap w this = Some h"
      "disconnect_and_delete this h w1 = Some w'"
      "heap w1 = heap w" "g_child_process_list w1 = g_child_process_list w"
      "next_object w1 = next_object w"
      "\<exists>es. trace w1 = trace w @ es \<and> (\<forall>p. retries_of p es = 0) \<and>
         (\<forall>p. notifications_of p es = [] \<or>
              (p = this \<and> notifications_of p es = [NOTIFICATION_CHILD_PROCESS_CRASHED]))"
      "fst (GetTerminationStatus os h) = TERMINATION_STATUS_STILL_RUNNING \<longrightarrow> disconnect_was_alive h"
proof -
  from assms obtain h where h: "heap w this = Some h"
    by (auto simp: OnChildDisconnected_def split: option.splits)
  obtain status exit_code where st: "GetTerminationStatus os h = (status, exit_code)"
    by (cases "GetTerminationStatus os h")
  show thesis
  proof (cases "status = TERMINATION_STATUS_STILL_RUNNING \<and> \<not> disconnect_was_alive h")
    case True
    with assms h st have "w' = wait_for_exit_code pf this h w"
      by (simp add: OnChildDisconnected_def)
    with True h st show thesis by (intro waiting[of h]) simp_all
  next
    case False
    define w1 where "w1 =
      (case status of
         TERMINATION_STATUS_PROCESS_CRASHED \<Rightarrow> report_crashed exit_code this h w
       | TERMINATION_STATUS_ABNORMAL_TERMINATION \<Rightarrow> report_crashed exit_code this h w
       | TERMINATION_STATUS_PROCESS_WAS_KILLED \<Rightarrow> report_killed h w
       | TERMINATION_STATUS_STILL_RUNNING \<Rightarrow>
           UMA_HISTOGRAM_ENUMERATION ''ChildProcess.DisconnectedAlive'' (data_type (data h)) w
       | _ \<Rightarrow> w)"
    from assms h st False have d: "disconnect_and_delete this h w1 = Some w'"
      by (cases status) (simp_all add: OnChildDisconnected_def w1_def)
    have sel: "heap w1 = heap w" "g_child_process_list w1 = g_child_process_list w"
      "next_object w1 = next_object w"
      by (cases status; simp add: w1_def)+
    have tr: "\<exists>es. trace w1 = trace w @ es \<and> (\<forall>p. retries_of p es = 0) \<and>
         (\<forall>p. notifications_of p es = [] \<or>
              (p = this \<and> notifications_of p es = [NOTIFICATION_CHILD_PROCESS_CRASHED]))"
      by (cases status; simp add: w1_def)
    from False st have "fst (GetTerminationStatus os h) = TERMINATION_STATUS_STILL_RUNNING
        \<longrightarrow> disconnect_was_alive h" by auto
    with h d sel tr show thesis by (intro terminal[of h w1])
  qed
qed

lemmas simple_call_defs = Launch_def SetName_def SetHandle_def ForceShutdown_def
  SetTerminateChildOnShutdown_def OnMessageReceived_def OnChannelConnected_def
  OnChannelError_def CanShutdown_def Send_def ShutdownStarted_def OnProcessLaunched_def

lemma Create_sel [simp]:
  "fst (Create t dlg w) = next_object w"
  "trace (snd (Create t dlg w)) = trace w @
     [HostCall (next_object w) (Host_AddFilter ''TraceMessageFilter''),
      HostCall (next_object w) (Host_AddFilter ''ProfilerMessageFilter'')]"
  "heap (snd (Create t dlg w)) = (heap w)(next_object w \<mapsto>
     \<lparr>data = \<lparr>data_type = t, data_name = [], data_id = next_unique_id w,
               data_handle = kNullProcessHandle\<rparr>,
      delegate = dlg, child_process = None, disconnect_was_alive = False\<rparr>)"
  "g_child_process_list (snd (Create t dlg w)) = g_child_process_list w @ [next_object w]"
  "next_object (snd (Create t dlg w)) = Suc (next_object w)"
  by (simp_all add: Create_def GenerateChildProcessUniqueId_def ChildProcessData_ctor_def
      Let_def store_def emit_def)

lemma wf_initial: "wf_world initial_world"
  by (simp add: wf_world_def initial_world_def)

lemma wf_removed:
  assumes "wf_world w"
    and "g_child_process_list w' = removeAll q (g_child_process_list w)"
    and "heap w' = heap w \<or> heap w' = (heap w)(q := None)"
    and "next_object w' = next_object w"
  shows "wf_world w'"
  using assms unfolding wf_world_def by (auto simp: distinct_removeAll split: if_splits)

lemma wf_updated:
  assumes "wf_world w"
    and "g_child_process_list w' = g_child_process_list w"
    and "heap w' = heap w \<or> heap w' = (heap w)(q \<mapsto> h')"
    and "heap w q = Some h"
    and "next_object w' = next_object w"
  shows "wf_world w'"
  using assms unfolding wf_world_def by (auto split: if_splits)

lemma delete_host_wf:
  "delete_host p w = Some w' \<Longrightarrow> wf_world w \<Longrightarrow> wf_world w'"
  by (rule wf_removed[where q = p and w = w]) (auto dest: delete_host_SomeD)

lemma STLDeleteElements_wf:
  "STLDeleteElements ps w = Some w' \<Longrightarrow> wf_world w \<Longrightarrow> wf_world w'"
  by (induction ps arbitrary: w) (auto split: option.splits dest: delete_host_wf)

lemma OnChildDisconnected_wf:
  assumes "OnChildDisconnected pf os this w = Some w'" and "wf_world w"
  shows "wf_world w'"
  using assms(1)
proof (cases rule: OnChildDisconnected_cases)
  case (waiting h)
  show ?thesis
    by (rule wf_updated[of w w' this _ h]) (use waiting assms(2) in auto)
next
  case (terminal h w1)
  note d = disconnect_and_delete_SomeD[OF terminal(2)]
  have "wf_world w1"
    using assms(2) terminal(3-5) by (simp add: wf_world_def)
  then show ?thesis
    by (rule wf_removed[of w1 w' this]) (use d in auto)
qed

lemma Create_wf: "wf_world w \<Longrightarrow> wf_world (snd (Create t dlg w))"
  unfolding wf_world_def by (auto split: if_splits simp: less_Suc_eq)

lemma step_wf:
  assumes "step pf c w = Some w'" and "wf_world w"
  shows "wf_world w'"
proof (cases c)
  case Call_TerminateAll
  with assms show ?thesis
    by (auto simp: TerminateAll_def dest: STLDeleteElements_wf)
next
  case (Call_OnChildDisconnected this os)
  with assms show ?thesis
    by (auto dest: OnChildDisconnected_wf)
next
  case (Call_OnWaitableEventSignaled this ec os)
  with assms show ?thesis
    by (auto simp: OnWaitableEventSignaled_def
        split: option.splits platform.splits if_splits
        dest: OnChildDisconnected_wf delete_host_wf)
next
  case (Call_Create t dlg)
  with assms show ?thesis by (auto intro: Create_wf)
next
  case (Call_delete this)
  with assms show ?thesis by (auto dest: delete_host_wf)
next
  case (Call_OnProcessLaunched this lh)
  with assms show ?thesis
    by (auto simp: OnProcessLaunched_def wf_world_def split: option.splits if_splits
        dest: delete_host_wf[unfolded wf_world_def])
qed (use assms in \<open>auto simp: simple_call_defs wf_world_def distinct_removeAll
      split: option.splits if_splits\<close>)

lemma run_wf:
  "run pf cs w = Some w' \<Longrightarrow> wf_world w \<Longrightarrow> wf_world w'"
  by (induction cs arbitrary: w) (auto split: option.splits dest: step_wf)

lemma STLDeleteElements_SomeD:
  assumes "STLDeleteElements ps w = Some w'"
  shows "trace w' = trace w @ map Destroyed ps"
    and "heap w' = (\<lambda>p. if p \<in> set ps then None else heap w p)"
    and "g_child_process_list w' = filter (\<lambda>p. p \<notin> set ps) (g_child_process_list w)"
    and "next_object w' = next_object w"
    and "\<forall>p \<in> set ps. heap w p \<noteq> None"
    and "distinct ps"
  using assms
proof (induction ps arbitrary: w)
  case Nil
  {
    case 1 then show ?case by simp
  next
    case 2 then show ?case by simp
  next
    case 3 then show ?case by simp
  next
    case 4 then show ?case by simp
  next
    case 5 then show ?case by simp
  next
    case 6 then show ?case by simp
  }
next
  case (Cons q ps)
  {
    case 1
    then obtain w1 where w1: "delete_host q w = Some w1" "STLDeleteElements ps w1 = Some w'"
      by (auto split: option.splits)
    from Cons(1)[OF w1(2)] delete_host_SomeD[OF w1(1)] show ?case by simp
  next
    case 2
    then obtain w1 where w1: "delete_host q w = Some w1" "STLDeleteElements ps w1 = Some w'"
      by (auto split: option.splits)
    from Cons(2)[OF w1(2)] delete_host_SomeD[OF w1(1)] show ?case by auto
  next
    case 3
    then obtain w1 where w1: "delete_host q w = Some w1" "STLDeleteElements ps w1 = Some w'"
      by (auto split: option.splits)
    from Cons(3)[OF w1(2)] delete_host_SomeD[OF w1(1)] show ?case
      by (auto simp: removeAll_filter_not_eq intro: filter_cong)
  next
    case 4
    then obtain w1 where w1: "delete_host q w = Some w1" "STLDeleteElements ps w1 = Some w'"
      by (auto split: option.splits)
    from Cons(4)[OF w1(2)] delete_host_SomeD[OF w1(1)] show ?case by simp
  next
    case 5
    then obtain w1 where w1: "delete_host q w = Some w1" "STLDeleteElements ps w1 = Some w'"
      by (auto split: option.splits)
    from Cons(5)[OF w1(2)] delete_host_SomeD[OF w1(1)] show ?case by (auto split: if_splits)
  next
    case 6
    then obtain w1 where w1: "delete_host q w = Some w1" "STLDeleteElements ps w1 = Some w'"
      by (auto split: option.splits)
    from Cons(6)[OF w1(2)] Cons(5)[OF w1(2)] delete_host_SomeD[OF w1(1)] show ?case
      by (auto split: if_splits)
  }
qed

lemma STLDeleteElements_Some:
  "distinct ps \<Longrightarrow> \<forall>p \<in> set ps. heap w p \<noteq> None \<Longrightarrow> \<exists>w'. STLDeleteElements ps w = Some w'"
proof (induction ps arbitrary: w)
  case Nil
  then show ?case by simp
next
  case (Cons q ps)
  then obtain h where "heap w q = Some h" by auto
  then obtain w1 where w1: "delete_host q w = Some w1"
    using delete_host_Some by blast
  from delete_host_SomeD[OF w1] Cons.prems have "\<forall>p \<in> set ps. heap w1 p \<noteq> None"
    by auto
  with Cons.IH[of w1] Cons.prems w1 show ?case by auto
qed

subsection \<open>What one call does to one host\<close>

lemma step_next_object:
  assumes "step pf c w = Some w'"
  shows "next_object w \<le> next_object w'"
proof (cases c)
  case Call_TerminateAll
  with assms show ?thesis
    by (auto simp: TerminateAll_def dest: STLDeleteElements_SomeD(4))
next
  case (Call_OnChildDisconnected this os)
  with assms have "OnChildDisconnected pf os this w = Some w'" by simp
  then show ?thesis
    by (cases rule: OnChildDisconnected_cases) (auto dest: disconnect_and_delete_SomeD(5))
next
  case (Call_OnWaitableEventSignaled this ec os)
  show ?thesis
  proof (cases "pf = OS_WIN \<and> ec \<noteq> STILL_ACTIVE")
    case True
    with assms Call_OnWaitableEventSignaled
    have "OnChildDisconnected pf os this w = Some w'"
      by (auto simp: OnWaitableEventSignaled_def split: option.splits)
    then show ?thesis
      by (cases rule: OnChildDisconnected_cases) (auto dest: disconnect_and_delete_SomeD(5))
  next
    case False
    with assms Call_OnWaitableEventSignaled show ?thesis
      by (auto simp: OnWaitableEventSignaled_def split: option.splits platform.splits
          dest: delete_host_SomeD(5))
  qed
qed (use assms in \<open>auto simp: simple_call_defs split: option.splits if_splits
      dest: delete_host_SomeD(5)\<close>)

lemma OnWaitableEventSignaled_cases:
  assumes "OnWaitableEventSignaled pf ec os this w = Some w'"
  obtains
    (noop) "pf = OS_POSIX" "w' = w" "heap w this \<noteq> None"
  | (still_active) "pf = OS_WIN" "ec = STILL_ACTIVE" "delete_host this w = Some w'"
  | (resolved) "pf = OS_WIN" "ec \<noteq> STILL_ACTIVE" "OnChildDisconnected pf os this w = Some w'"
  using assms
  by (auto simp: OnWaitableEventSignaled_def split: option.splits platform.splits if_splits)

lemma OnChildDisconnected_dead:
  assumes "OnChildDisconnected pf os this w = Some w'" and "heap w p = None"
  shows "heap w' p = None"
  using assms(1)
  by (cases rule: OnChildDisconnected_cases)
     (use assms(2) in \<open>auto dest!: disconnect_and_delete_SomeD(3)\<close>)

lemma step_dead:
  assumes "step pf c w = Some w'" and "heap w p = None" and "p \<noteq> next_object w"
  shows "heap w' p = None"
proof (cases c)
  case Call_TerminateAll
  with assms show ?thesis
    by (auto simp: TerminateAll_def dest!: STLDeleteElements_SomeD(2))
next
  case (Call_OnChildDisconnected this os)
  with assms show ?thesis by (auto dest: OnChildDisconnected_dead)
next
  case (Call_OnWaitableEventSignaled this ec os)
  with assms have "OnWaitableEventSignaled pf ec os this w = Some w'" by simp
  then show ?thesis
    by (cases rule: OnWaitableEventSignaled_cases)
       (use assms(2) in \<open>auto dest: OnChildDisconnected_dead dest!: delete_host_SomeD(3)\<close>)
qed (use assms in \<open>auto simp: simple_call_defs split: option.splits if_splits
      dest!: delete_host_SomeD(3)\<close>)

lemma run_next_object:
  "run pf cs w = Some w' \<Longrightarrow> next_object w \<le> next_object w'"
proof (induction cs arbitrary: w)
  case Nil
  then show ?case by simp
next
  case (Cons c cs)
  then obtain w1 where w1: "step pf c w = Some w1" "run pf cs w1 = Some w'"
    by (auto split: option.splits)
  from step_next_object[OF w1(1)] Cons.IH[OF w1(2)] show ?case by simp
qed

lemma run_dead:
  "run pf cs w = Some w' \<Longrightarrow> heap w p = None \<Longrightarrow> p < next_object w \<Longrightarrow> heap w' p = None"
proof (induction cs arbitrary: w)
  case Nil
  then show ?case by simp
next
  case (Cons c cs)
  then obtain w1 where w1: "step pf c w = Some w1" "run pf cs w1 = Some w'"
    by (auto split: option.splits)
  from step_dead[OF w1(1) Cons.prems(2)] Cons.prems(3) have "heap w1 p = None" by simp
  moreover from step_next_object[OF w1(1)] Cons.prems(3) have "p < next_object w1" by simp
  ultimately show ?case using Cons.IH[OF w1(2)] by simp
qed

subsection \<open>Notifications\<close>

lemma notified_in_call_quiet:
  "notifications_of p (trace w') = notifications_of p (trace w) \<Longrightarrow> notified_in_call p w w'"
  by (simp add: notified_in_call_def)

lemma delete_host_notified:
  "delete_host q w = Some w' \<Longrightarrow> notified_in_call p w w'"
  by (rule notified_in_call_quiet) (auto dest!: delete_host_SomeD(2) simp: notifications_of_append)

lemma OnChildDisconnected_notified:
  assumes "OnChildDisconnected pf os this w = Some w'"
  shows "notified_in_call p w w'"
  using assms
proof (cases rule: OnChildDisconnected_cases)
  case (waiting h)
  then show ?thesis
    by (intro notified_in_call_quiet) (auto simp: notifications_of_append split: platform.splits)
next
  case (terminal h w1)
  note d = disconnect_and_delete_SomeD[OF terminal(2)]
  from terminal(6) obtain es where es: "trace w1 = trace w @ es"
    "notifications_of p es = [] \<or>
      (p = this \<and> notifications_of p es = [NOTIFICATION_CHILD_PROCESS_CRASHED])"
    by blast
  show ?thesis
  proof (cases "p = this")
    case True
    with d es terminal(1) show ?thesis
      unfolding notified_in_call_def terminal_pair_def
      by (auto simp: notifications_of_append)
  next
    case False
    with d es show ?thesis
      by (intro notified_in_call_quiet) (auto simp: notifications_of_append)
  qed
qed

lemma notifications_of_Destroyed [simp]:
  "notifications_of p (map Destroyed ps) = []"
  by (induction ps) auto

lemma step_notified:
  assumes "step pf c w = Some w'"
  shows "notified_in_call p w w'"
proof (cases c)
  case Call_TerminateAll
  with assms show ?thesis
    by (intro notified_in_call_quiet)
       (auto simp: TerminateAll_def notifications_of_append dest!: STLDeleteElements_SomeD(1))
next
  case (Call_OnChildDisconnected this os)
  with assms show ?thesis by (auto dest: OnChildDisconnected_notified)
next
  case (Call_OnWaitableEventSignaled this ec os)
  with assms have "OnWaitableEventSignaled pf ec os this w = Some w'" by simp
  then show ?thesis
    by (cases rule: OnWaitableEventSignaled_cases)
       (auto dest: OnChildDisconnected_notified delete_host_notified intro: notified_in_call_quiet)
next
  case (Call_delete this)
  with assms show ?thesis by (auto dest: delete_host_notified)
next
  case (Call_OnProcessLaunched this lh)
  show ?thesis
  proof (cases "lh = kNullProcessHandle")
    case True
    with assms Call_OnProcessLaunched have "delete_host this w = Some w'"
      by (auto simp: OnProcessLaunched_def split: option.splits)
    then show ?thesis by (rule delete_host_notified)
  next
    case False
    with assms Call_OnProcessLaunched show ?thesis
      by (intro notified_in_call_quiet)
         (auto simp: OnProcessLaunched_def notifications_of_append split: option.splits)
  qed
next
  case (Call_OnChannelConnected this peer)
  with assms show ?thesis
    by (auto simp: OnChannelConnected_def notified_in_call_def notifications_of_append
        split: option.splits)
qed (use assms in \<open>auto simp: simple_call_defs notifications_of_append
      split: option.splits if_splits intro!: notified_in_call_quiet\<close>)

lemma terminal_once_initial: "terminal_once p initial_world"
  by (simp add: terminal_once_def initial_world_def)

lemma terminal_pair_facts:
  assumes "terminal_pair ns" and "NOTIFICATION_CHILD_PROCESS_HOST_DISCONNECTED \<notin> set ms"
  shows "count_list (ms @ ns) NOTIFICATION_CHILD_PROCESS_HOST_DISCONNECTED = 1"
    and "last (ms @ ns) = NOTIFICATION_CHILD_PROCESS_HOST_DISCONNECTED"
    and "ns \<noteq> []"
  using assms unfolding terminal_pair_def by (auto simp: count_list_0_iff)

lemma step_terminal_once:
  assumes st: "step pf c w = Some w'" and wf: "wf_world w" and inv: "terminal_once p w"
  shows "terminal_once p w'"
proof -
  let ?D = NOTIFICATION_CHILD_PROCESS_HOST_DISCONNECTED
  let ?ms = "notifications_of p (trace w)"
  from step_notified[OF st, of p] obtain ns where
    ns0: "notifications_of p (trace w') = ?ms @ ns \<and>
      (heap w p = None \<longrightarrow> ns = []) \<and>
      (ns = [] \<or> ns = [NOTIFICATION_CHILD_PROCESS_HOST_CONNECTED] \<or>
         (terminal_pair ns \<and> heap w' p = None))"
    unfolding notified_in_call_def ..
  note ns = ns0[THEN conjunct1] ns0[THEN conjunct2, THEN conjunct1]
    ns0[THEN conjunct2, THEN conjunct2]
  note mono = step_next_object[OF st]
  have fresh: "heap w p = None" if "next_object w \<le> p"
  proof (rule ccontr)
    assume "heap w p \<noteq> None"
    with wf have "p < next_object w" unfolding wf_world_def by blast
    with that show False by simp
  qed
  have alive: "p < next_object w'" if "ns \<noteq> []"
  proof -
    from that ns(2) have "heap w p \<noteq> None" by blast
    with wf have "p < next_object w" unfolding wf_world_def by blast
    with mono show ?thesis by simp
  qed
  show ?thesis
  proof (cases "?D \<in> set ?ms")
    case True
    with inv have old: "count_list ?ms ?D = 1" "last ?ms = ?D" "heap w p = None"
      "p < next_object w"
      unfolding terminal_once_def Let_def by blast+
    from old(3) ns(2) have e: "ns = []" by simp
    from step_dead[OF st old(3)] old(4) have "heap w' p = None" by simp
    moreover from old(4) mono have "p < next_object w'" by simp
    ultimately show ?thesis
      using old(1,2) ns(1) e unfolding terminal_once_def Let_def by simp
  next
    case False
    then have "count_list ?ms ?D = 0" by (simp add: count_list_0_iff)
    with inv have old: "next_object w \<le> p \<longrightarrow> ?ms = []"
      unfolding terminal_once_def Let_def by simp
    from ns(3) consider "ns = []" | "ns = [NOTIFICATION_CHILD_PROCESS_HOST_CONNECTED]"
      | "terminal_pair ns" "heap w' p = None"
      by auto
    then show ?thesis
    proof cases
      case 1
      from old mono have "next_object w' \<le> p \<longrightarrow> ?ms = []" by simp
      with False ns(1) 1 show ?thesis
        unfolding terminal_once_def Let_def by simp
    next
      case 2
      then have "p < next_object w'" by (intro alive) simp
      with 2 False ns(1) show ?thesis
        unfolding terminal_once_def Let_def by simp
    next
      case 3
      note f = terminal_pair_facts[OF 3(1) False]
      from f(3) have "p < next_object w'" by (rule alive)
      with f(1,2) 3(2) ns(1) show ?thesis
        unfolding terminal_once_def Let_def by simp
    qed
  qed
qed

lemma run_terminal_once:
  "run pf cs w = Some w' \<Longrightarrow> wf_world w \<Longrightarrow> terminal_once p w \<Longrightarrow> terminal_once p w'"
proof (induction cs arbitrary: w)
  case Nil
  then show ?case by simp
next
  case (Cons c cs)
  then obtain w1 where w1: "step pf c w = Some w1" "run pf cs w1 = Some w'"
    by (auto split: option.splits)
  from step_wf[OF w1(1) Cons.prems(2)] step_terminal_once[OF w1(1) Cons.prems(2,3)]
  show ?case by (rule Cons.IH[OF w1(2)])
qed

subsection \<open>The fields of one host\<close>

lemma OnChildDisconnected_fields:
  assumes "OnChildDisconnected pf os this w = Some w'"
    and "heap w p = Some h" and "heap w' p = Some h'"
  shows "disconnect_was_alive h' =
           (disconnect_was_alive h \<or>
            (this = p \<and> fst (GetTerminationStatus os h) = TERMINATION_STATUS_STILL_RUNNING)) \<and>
         data h' = data h"
  using assms(1)
proof (cases rule: OnChildDisconnected_cases)
  case (waiting h0)
  with assms(2,3) show ?thesis by (cases "this = p") auto
next
  case (terminal h0 w1)
  note d = disconnect_and_delete_SomeD[OF terminal(2)]
  from d(3) terminal(3) assms(2,3) show ?thesis by (cases "this = p") auto
qed

lemma step_fields:
  assumes "step pf c w = Some w'"
    and "heap w p = Some h" and "heap w' p = Some h'" and "p \<noteq> next_object w"
  shows "disconnect_was_alive h' = (disconnect_was_alive h \<or> still_running_observed pf p h c)"
    and "data_handle (data h') =
           (case handle_written p c of None \<Rightarrow> data_handle (data h) | Some v \<Rightarrow> v)"
proof -
  have "disconnect_was_alive h' = (disconnect_was_alive h \<or> still_running_observed pf p h c) \<and>
    data_handle (data h') =
           (case handle_written p c of None \<Rightarrow> data_handle (data h) | Some v \<Rightarrow> v)"
  proof (cases c)
    case Call_TerminateAll
    with assms show ?thesis
      by (auto simp: TerminateAll_def dest!: STLDeleteElements_SomeD(2) split: if_splits)
  next
    case (Call_OnChildDisconnected this os)
    with assms(1) have "OnChildDisconnected pf os this w = Some w'" by simp
    from OnChildDisconnected_fields[OF this assms(2,3)] Call_OnChildDisconnected
    show ?thesis by auto
  next
    case (Call_OnWaitableEventSignaled this ec os)
    with assms have "OnWaitableEventSignaled pf ec os this w = Some w'" by simp
    then show ?thesis
    proof (cases rule: OnWaitableEventSignaled_cases)
      case noop
      with assms(2,3) Call_OnWaitableEventSignaled show ?thesis by simp
    next
      case still_active
      from delete_host_SomeD(3)[OF still_active(3)] assms(2,3) still_active(1,2)
        Call_OnWaitableEventSignaled
      show ?thesis by (auto split: if_splits)
    next
      case resolved
      from OnChildDisconnected_fields[OF resolved(3) assms(2,3)] resolved(1,2)
        Call_OnWaitableEventSignaled
      show ?thesis by auto
    qed
  next
    case (Call_delete this)
    with assms show ?thesis by (auto dest!: delete_host_SomeD(3) split: if_splits)
  next
    case (Call_OnProcessLaunched this lh)
    with assms show ?thesis
      by (cases "lh = kNullProcessHandle")
         (auto simp: OnProcessLaunched_def split: option.splits if_splits
           dest!: delete_host_SomeD(3))
  qed (use assms in \<open>auto simp: simple_call_defs split: option.splits if_splits\<close>)
  then show "disconnect_was_alive h' = (disconnect_was_alive h \<or> still_running_observed pf p h c)"
    and "data_handle (data h') =
           (case handle_written p c of None \<Rightarrow> data_handle (data h) | Some v \<Rightarrow> v)"
    by simp_all
qed

subsection \<open>Scheduled re-checks\<close>

lemma retries_of_Destroyed [simp]: "retries_of p (map Destroyed ps) = 0"
  by (induction ps) auto

lemma OnChildDisconnected_retries:
  assumes "OnChildDisconnected pf os this w = Some w'"
  shows "retries_of p (trace w') = retries_of p (trace w) +
           (if first_observation pf p w (Call_OnChildDisconnected this os) then 1 else 0)"
  using assms
proof (cases rule: OnChildDisconnected_cases)
  case (waiting h)
  then show ?thesis
    by (cases "this = p")
       (auto simp: first_observation_def retries_of_append split: platform.splits option.splits)
next
  case (terminal h w1)
  note d = disconnect_and_delete_SomeD[OF terminal(2)]
  from terminal(6) obtain es where es: "trace w1 = trace w @ es \<and> (\<forall>p. retries_of p es = 0) \<and>
         (\<forall>p. notifications_of p es = [] \<or>
              (p = this \<and> notifications_of p es = [NOTIFICATION_CHILD_PROCESS_CRASHED]))" ..
  from es have r: "retries_of p (trace w1) = retries_of p (trace w)"
    by (simp add: retries_of_append)
  from terminal(1,7) have "\<not> first_observation pf p w (Call_OnChildDisconnected this os)"
    by (cases "this = p") (auto simp: first_observation_def split: option.splits)
  with d(2) r show ?thesis by (simp add: retries_of_append)
qed

lemma step_retries:
  assumes "step pf c w = Some w'"
  shows "retries_of p (trace w') = retries_of p (trace w) +
           (if first_observation pf p w c then 1 else 0)"
proof (cases c)
  case Call_TerminateAll
  with assms show ?thesis
    by (auto simp: TerminateAll_def first_observation_def retries_of_append
        dest!: STLDeleteElements_SomeD(1) split: option.splits)
next
  case (Call_OnChildDisconnected this os)
  with assms show ?thesis by (simp add: OnChildDisconnected_retries)
next
  case (Call_OnWaitableEventSignaled this ec os)
  with assms have "OnWaitableEventSignaled pf ec os this w = Some w'" by simp
  then show ?thesis
  proof (cases rule: OnWaitableEventSignaled_cases)
    case noop
    with Call_OnWaitableEventSignaled show ?thesis
      by (simp add: first_observation_def split: option.splits)
  next
    case still_active
    from delete_host_SomeD(2)[OF still_active(3)] still_active(1,2)
      Call_OnWaitableEventSignaled
    show ?thesis by (simp add: first_observation_def retries_of_append split: option.splits)
  next
    case resolved
    from OnChildDisconnected_retries[OF resolved(3), of p] resolved(1,2)
      Call_OnWaitableEventSignaled
    show ?thesis by (simp add: first_observation_def split: option.splits)
  qed
next
  case (Call_delete this)
  with assms show ?thesis
    by (auto simp: first_observation_def retries_of_append dest!: delete_host_SomeD(2)
        split: option.splits)
next
  case (Call_OnProcessLaunched this lh)
  with assms show ?thesis
    by (cases "lh = kNullProcessHandle")
       (auto simp: OnProcessLaunched_def first_observation_def retries_of_append
         split: option.splits if_splits dest!: delete_host_SomeD(2))
qed (use assms in \<open>auto simp: simple_call_defs first_observation_def retries_of_append
      split: option.splits if_splits\<close>)

subsection \<open>Whole runs\<close>

lemma run_Cons_SomeE:
  assumes "run pf (c # cs) w = Some w'"
  obtains w1 where "step pf c w = Some w1" "run pf cs w1 = Some w'"
  using assms by (auto split: option.splits)

lemma run_alive_step:
  assumes "step pf c w = Some w1" and "run pf cs w1 = Some w'" and "heap w' p = Some h'"
    and "p < next_object w"
  obtains h1 where "heap w1 p = Some h1" "p < next_object w1"
proof -
  from step_next_object[OF assms(1)] assms(4) have lt: "p < next_object w1" by simp
  have "heap w1 p \<noteq> None"
  proof
    assume "heap w1 p = None"
    from run_dead[OF assms(2) this lt] assms(3) show False by simp
  qed
  with lt that show thesis by auto
qed

lemma run_fields:
  assumes "run pf cs w = Some w'" and "heap w p = Some h" and "heap w' p = Some h'"
    and "p < next_object w"
  shows "disconnect_was_alive h' = (disconnect_was_alive h \<or> observed_still_running pf p cs w)"
    and "data_handle (data h') = last (data_handle (data h) # handle_writes p cs)"
  using assms
proof (induction cs arbitrary: w h)
  case Nil
  {
    case 1 then show ?case by simp
  next
    case 2 then show ?case by (simp add: handle_writes_def)
  }
next
  case (Cons c cs)
  {
    case 1
    from 1(1) obtain w1 where w1: "step pf c w = Some w1" "run pf cs w1 = Some w'"
      by (rule run_Cons_SomeE)
    from w1 1(3,4) obtain h1 where h1: "heap w1 p = Some h1" "p < next_object w1"
      by (rule run_alive_step)
    from 1(4) have ne: "p \<noteq> next_object w" by simp
    from step_fields(1)[OF w1(1) 1(2) h1(1) ne] Cons.IH(1)[OF w1(2) h1(1) 1(3) h1(2)]
    show ?case using w1(1) 1(2) by auto
  next
    case 2
    from 2(1) obtain w1 where w1: "step pf c w = Some w1" "run pf cs w1 = Some w'"
      by (rule run_Cons_SomeE)
    from w1 2(3,4) obtain h1 where h1: "heap w1 p = Some h1" "p < next_object w1"
      by (rule run_alive_step)
    from 2(4) have ne: "p \<noteq> next_object w" by simp
    from step_fields(2)[OF w1(1) 2(2) h1(1) ne] Cons.IH(2)[OF w1(2) h1(1) 2(3) h1(2)]
    show ?case
      by (cases "handle_written p c") (simp_all add: handle_writes_def)
  }
qed

lemma step_retried_once:
  assumes st: "step pf c w = Some w'" and wf: "wf_world w" and inv: "retried_once p w"
  shows "retried_once p w'"
proof -
  note r = step_retries[OF st, of p]
  note mono = step_next_object[OF st]
  have after: "case heap w' p of None \<Rightarrow> True | Some h \<Rightarrow> disconnect_was_alive h"
    if "heap w p = Some h" "p < next_object w"
       "disconnect_was_alive h \<or> still_running_observed pf p h c" for h
  proof (cases "heap w' p")
    case None
    then show ?thesis by simp
  next
    case (Some h')
    from that(2) have "p \<noteq> next_object w" by simp
    from step_fields(1)[OF st that(1) Some this] that(3) Some show ?thesis by simp
  qed
  show ?thesis
  proof (cases "first_observation pf p w c")
    case True
    then obtain h where h: "heap w p = Some h" "\<not> disconnect_was_alive h"
      "still_running_observed pf p h c"
      by (auto simp: first_observation_def split: option.splits)
    from h(1) wf have lt: "p < next_object w" unfolding wf_world_def by blast
    from inv h(1,2) have "retries_of p (trace w) = 0"
      by (auto simp: retried_once_def)
    with r True have "retries_of p (trace w') = 1" by simp
    moreover from lt mono have "p < next_object w'" by simp
    moreover from after[OF h(1) lt] h(3)
    have "case heap w' p of None \<Rightarrow> True | Some h \<Rightarrow> disconnect_was_alive h" by simp
    ultimately show ?thesis by (simp add: retried_once_def)
  next
    case False
    with r have same: "retries_of p (trace w') = retries_of p (trace w)" by simp
    show ?thesis
    proof (cases "retries_of p (trace w) = 0")
      case True
      with same show ?thesis by (simp add: retried_once_def)
    next
      case nz: False
      with inv have old: "retries_of p (trace w) = 1" "p < next_object w"
        "case heap w p of None \<Rightarrow> True | Some h \<Rightarrow> disconnect_was_alive h"
        by (auto simp: retried_once_def)
      have "case heap w' p of None \<Rightarrow> True | Some h \<Rightarrow> disconnect_was_alive h"
      proof (cases "heap w p")
        case None
        from step_dead[OF st None] old(2) have "heap w' p = None" by simp
        then show ?thesis by simp
      next
        case (Some h)
        with old(3) have "disconnect_was_alive h" by simp
        with after[OF Some old(2)] show ?thesis by simp
      qed
      moreover from old(2) mono have "p < next_object w'" by simp
      ultimately show ?thesis using same old(1) by (simp add: retried_once_def)
    qed
  qed
qed

lemma run_retried_once:
  "run pf cs w = Some w' \<Longrightarrow> wf_world w \<Longrightarrow> retried_once p w \<Longrightarrow> retried_once p w'"
proof (induction cs arbitrary: w)
  case Nil
  then show ?case by simp
next
  case (Cons c cs)
  from Cons.prems(1) obtain w1 where w1: "step pf c w = Some w1" "run pf cs w1 = Some w'"
    by (rule run_Cons_SomeE)
  from step_wf[OF w1(1) Cons.prems(2)] step_retried_once[OF w1(1) Cons.prems(2,3)]
  show ?case by (rule Cons.IH[OF w1(2)])
qed

lemma retried_once_initial: "retried_once p initial_world"
  by (simp add: retried_once_def initial_world_def)

lemma OnChildDisconnected_disconnected:
  assumes "OnChildDisconnected pf os this w = Some w'"
  shows "count_list (notifications_of p (trace w')) NOTIFICATION_CHILD_PROCESS_HOST_DISCONNECTED =
         count_list (notifications_of p (trace w)) NOTIFICATION_CHILD_PROCESS_HOST_DISCONNECTED +
           (if tail_reached pf p w (Call_OnChildDisconnected this os) then 1 else 0)"
  using assms
proof (cases rule: OnChildDisconnected_cases)
  case (waiting h)
  then show ?thesis
    by (cases "this = p")
       (auto simp: tail_reached_def notifications_of_append split: platform.splits option.splits)
next
  case (terminal h w1)
  note d = disconnect_and_delete_SomeD[OF terminal(2)]
  from terminal(6) obtain es where es: "trace w1 = trace w @ es \<and> (\<forall>p. retries_of p es = 0) \<and>
         (\<forall>p. notifications_of p es = [] \<or>
              (p = this \<and> notifications_of p es = [NOTIFICATION_CHILD_PROCESS_CRASHED]))" ..
  then have "notifications_of p es = [] \<or>
      notifications_of p es = [NOTIFICATION_CHILD_PROCESS_CRASHED]"
    by blast
  then have c: "count_list (notifications_of p es) NOTIFICATION_CHILD_PROCESS_HOST_DISCONNECTED = 0"
    by auto
  show ?thesis
  proof (cases "this = p")
    case True
    with terminal(1,7) have "tail_reached pf p w (Call_OnChildDisconnected this os)"
      by (auto simp: tail_reached_def)
    with d(2) es c True show ?thesis by (simp add: notifications_of_append)
  next
    case False
    then have "\<not> tail_reached pf p w (Call_OnChildDisconnected this os)"
      by (simp add: tail_reached_def split: option.splits)
    with d(2) es c False show ?thesis by (simp add: notifications_of_append)
  qed
qed

lemma step_disconnected:
  assumes "step pf c w = Some w'"
  shows "count_list (notifications_of p (trace w')) NOTIFICATION_CHILD_PROCESS_HOST_DISCONNECTED =
         count_list (notifications_of p (trace w)) NOTIFICATION_CHILD_PROCESS_HOST_DISCONNECTED +
           (if tail_reached pf p w c then 1 else 0)"
proof (cases c)
  case Call_TerminateAll
  with assms show ?thesis
    by (auto simp: TerminateAll_def tail_reached_def notifications_of_append
        dest!: STLDeleteElements_SomeD(1) split: option.splits)
next
  case (Call_OnChildDisconnected this os)
  with assms show ?thesis by (simp add: OnChildDisconnected_disconnected)
next
  case (Call_OnWaitableEventSignaled this ec os)
  with assms have "OnWaitableEventSignaled pf ec os this w = Some w'" by simp
  then show ?thesis
  proof (cases rule: OnWaitableEventSignaled_cases)
    case noop
    with Call_OnWaitableEventSignaled show ?thesis
      by (simp add: tail_reached_def split: option.splits)
  next
    case still_active
    from delete_host_SomeD(2)[OF still_active(3)] still_active(1,2)
      Call_OnWaitableEventSignaled
    show ?thesis by (simp add: tail_reached_def notifications_of_append split: option.splits)
  next
    case resolved
    from OnChildDisconnected_disconnected[OF resolved(3), of p] resolved(1,2)
      Call_OnWaitableEventSignaled
    show ?thesis by (simp add: tail_reached_def split: option.splits)
  qed
next
  case (Call_delete this)
  with assms show ?thesis
    by (auto simp: tail_reached_def notifications_of_append dest!: delete_host_SomeD(2)
        split: option.splits)
next
  case (Call_OnProcessLaunched this lh)
  with assms show ?thesis
    by (cases "lh = kNullProcessHandle")
       (auto simp: OnProcessLaunched_def tail_reached_def notifications_of_append
         split: option.splits if_splits dest!: delete_host_SomeD(2))
qed (use assms in \<open>auto simp: simple_call_defs tail_reached_def notifications_of_append
      split: option.splits if_splits\<close>)

lemma step_tail_deletes:
  assumes st: "step pf c w = Some w'" and t: "tail_reached pf p w c"
  shows "heap w' p = None"
proof -
  from step_notified[OF st, of p] obtain ns where
    ns0: "notifications_of p (trace w') = notifications_of p (trace w) @ ns \<and>
      (heap w p = None \<longrightarrow> ns = []) \<and>
      (ns = [] \<or> ns = [NOTIFICATION_CHILD_PROCESS_HOST_CONNECTED] \<or>
         (terminal_pair ns \<and> heap w' p = None))"
    unfolding notified_in_call_def ..
  from step_disconnected[OF st, of p] t ns0
  have "count_list ns NOTIFICATION_CHILD_PROCESS_HOST_DISCONNECTED = 1" by simp
  then have "ns \<noteq> []" "ns \<noteq> [NOTIFICATION_CHILD_PROCESS_HOST_CONNECTED]" by auto
  with ns0 show ?thesis by simp
qed

lemma run_dead_quiet:
  assumes "run pf cs w = Some w'" and "heap w p = None" and "p < next_object w"
  shows "notifications_of p (trace w') = notifications_of p (trace w) \<and>
         \<not> disconnected_in_run pf p cs w"
  using assms
proof (induction cs arbitrary: w)
  case Nil
  then show ?case by simp
next
  case (Cons c cs)
  from Cons.prems(1) obtain w1 where w1: "step pf c w = Some w1" "run pf cs w1 = Some w'"
    by (rule run_Cons_SomeE)
  from step_dead[OF w1(1) Cons.prems(2)] Cons.prems(3) have dead: "heap w1 p = None" by simp
  from step_next_object[OF w1(1)] Cons.prems(3) have lt: "p < next_object w1" by simp
  from Cons.prems(2) have nt: "\<not> tail_reached pf p w c" by (simp add: tail_reached_def)
  from step_notified[OF w1(1), of p] Cons.prems(2)
  have same: "notifications_of p (trace w1) = notifications_of p (trace w)"
    by (auto simp: notified_in_call_def)
  from Cons.IH[OF w1(2) dead lt] same nt w1(1) show ?case by simp
qed

lemma run_disconnected:
  assumes "run pf cs w = Some w'" and "wf_world w"
  shows "count_list (notifications_of p (trace w')) NOTIFICATION_CHILD_PROCESS_HOST_DISCONNECTED =
         count_list (notifications_of p (trace w)) NOTIFICATION_CHILD_PROCESS_HOST_DISCONNECTED +
           (if disconnected_in_run pf p cs w then 1 else 0)"
  using assms
proof (induction cs arbitrary: w)
  case Nil
  then show ?case by simp
next
  case (Cons c cs)
  from Cons.prems(1) obtain w1 where w1: "step pf c w = Some w1" "run pf cs w1 = Some w'"
    by (rule run_Cons_SomeE)
  note wf1 = step_wf[OF w1(1) Cons.prems(2)]
  note cnt = step_disconnected[OF w1(1), of p]
  show ?case
  proof (cases "tail_reached pf p w c")
    case True
    then have "heap w p \<noteq> None" by (auto simp: tail_reached_def split: option.splits)
    with Cons.prems(2) have "p < next_object w" unfolding wf_world_def by blast
    with step_next_object[OF w1(1)] have lt: "p < next_object w1" by simp
    from step_tail_deletes[OF w1(1) True] have dead: "heap w1 p = None" .
    from run_dead_quiet[OF w1(2) dead lt] cnt True show ?thesis by simp
  next
    case False
    with Cons.IH[OF w1(2) wf1] cnt w1(1) show ?thesis by simp
  qed
qed

lemma Create_new_host:
  assumes "Create t dlg w0 = (p, w)"
  shows "p = next_object w0" and "next_object w = Suc p"
    and "\<exists>h. heap w p = Some h \<and> \<not> disconnect_was_alive h \<and>
           data_handle (data h) = kNullProcessHandle"
proof -
  from assms have p: "p = fst (Create t dlg w0)" and w: "w = snd (Create t dlg w0)"
    by simp_all
  from p show "p = next_object w0" by simp
  with w show "next_object w = Suc p" by simp
  from p w show "\<exists>h. heap w p = Some h \<and> \<not> disconnect_was_alive h \<and>
           data_handle (data h) = kNullProcessHandle" by simp
qed

subsection \<open>Examples\<close>

lemma example_world_run:
  "run pf [Call_Create 3 7, Call_SetHandle 0 5] initial_world = Some example_world"
  by (simp add: SetHandle_def example_world_def example_host_def initial_world_def store_def
      emit_def Create_def GenerateChildProcessUniqueId_def ChildProcessData_ctor_def
      kNullProcessHandle_def Let_def)

lemma GetTerminationStatus_example [simp]:
  "GetTerminationStatus (example_os status exit_code) h = (status, exit_code)"
  by (simp add: GetTerminationStatus_def example_os_def split: option.splits)

lemma example_world_alive_run:
  "run OS_POSIX [Call_Create 3 7, Call_SetHandle 0 5,
      Call_OnChildDisconnected 0 (example_os TERMINATION_STATUS_STILL_RUNNING 0)] initial_world =
   Some example_world_alive"
  by (simp add: OnChildDisconnected_def SetHandle_def example_world_alive_def
      example_host_alive_def example_world_def example_host_def wait_for_exit_code_def
      initial_world_def store_def emit_def Create_def GenerateChildProcessUniqueId_def
      ChildProcessData_ctor_def kNullProcessHandle_def kExitCodeWaitMs_def Let_def)

lemma example_world_launching_run:
  "run pf [Call_Create 3 7, Call_Launch 0] initial_world = Some example_world_launching"
  by (simp add: Launch_def example_world_launching_def example_host_launching_def
      initial_world_def store_def emit_def Create_def GenerateChildProcessUniqueId_def
      ChildProcessData_ctor_def kNullProcessHandle_def Let_def)

lemmas eval_defs = OnChildDisconnected_def OnWaitableEventSignaled_def SetHandle_def Launch_def
  OnProcessLaunched_def OnChannelConnected_def ShutdownStarted_def SetName_def
  disconnect_and_delete_def delete_host_def
  report_crashed_def report_killed_def wait_for_exit_code_def Notify_def
  UMA_HISTOGRAM_ENUMERATION_def initial_world_def store_def emit_def Create_def
  GenerateChildProcessUniqueId_def ChildProcessData_ctor_def kNullProcessHandle_def
  kExitCodeWaitMs_def STILL_ACTIVE_def Let_def

subsection \<open>The crashed branch\<close>

text \<open>
  C3. When \<^verbatim>\<open>OnChildDisconnected\<close> reads a crashed status
  (\<^verbatim>\<open>TERMINATION_STATUS_PROCESS_CRASHED\<close> or \<^verbatim>\<open>TERMINATION_STATUS_ABNORMAL_TERMINATION\<close>), the
  call returns, and what it has added to the log is, in this order: the delegate's
  \<^verbatim>\<open>OnProcessCrashed(exit_code)\<close>, one crashed notification, the Crashed sample for the
  process type, the CrashedWasAlive sample exactly when \<^verbatim>\<open>disconnect_was_alive_\<close> was true
  at entry, the Disconnected sample, one disconnected notification, and the destruction
  of the host. So the host has notified crashed then disconnected, the Crashed counter of
  its type is one higher, and the CrashedWasAlive counter is one higher if and only if the
  flag was set.
\<close>

theorem OnChildDisconnected_crashed:
  assumes "heap w this = Some h"
    and "GetTerminationStatus os h = (status, exit_code)"
    and "status = TERMINATION_STATUS_PROCESS_CRASHED \<or>
         status = TERMINATION_STATUS_ABNORMAL_TERMINATION"
  shows "\<exists>w'. OnChildDisconnected pf os this w = Some w' \<and>
     trace w' = trace w @
        [DelegateCall (delegate h) (Delegate_OnProcessCrashed exit_code),
         Notified this NOTIFICATION_CHILD_PROCESS_CRASHED (data h),
         Histogram ''ChildProcess.Crashed'' (data_type (data h))] @
        (if disconnect_was_alive h
         then [Histogram ''ChildProcess.CrashedWasAlive'' (data_type (data h))] else []) @
        [Histogram ''ChildProcess.Disconnected'' (data_type (data h)),
         Notified this NOTIFICATION_CHILD_PROCESS_HOST_DISCONNECTED (data h),
         Destroyed this] \<and>
     notifications_of this (trace w') = notifications_of this (trace w) @
        [NOTIFICATION_CHILD_PROCESS_CRASHED, NOTIFICATION_CHILD_PROCESS_HOST_DISCONNECTED] \<and>
     counter ''ChildProcess.Crashed'' (data_type (data h)) w' =
       Suc (counter ''ChildProcess.Crashed'' (data_type (data h)) w) \<and>
     counter ''ChildProcess.CrashedWasAlive'' (data_type (data h)) w' =
       counter ''ChildProcess.CrashedWasAlive'' (data_type (data h)) w +
         (if disconnect_was_alive h then 1 else 0) \<and>
     heap w' = (heap w)(this := None) \<and> this \<notin> set (g_child_process_list w')"
proof -
  let ?w1 = "report_crashed exit_code this h w"
  from assms(1) have "heap ?w1 this = Some h" by simp
  then obtain w' where w': "disconnect_and_delete this h ?w1 = Some w'"
    using disconnect_and_delete_Some by blast
  from assms w' have "OnChildDisconnected pf os this w = Some w'"
    by (auto simp: OnChildDisconnected_def)
  moreover note d = disconnect_and_delete_SomeD[OF w']
  ultimately show ?thesis
    by (intro exI[of _ w']) (simp add: counter_def notifications_of_append)
qed

theorem OnChildDisconnected_crashed_witness:
  "\<exists>w'. OnChildDisconnected OS_POSIX (example_os TERMINATION_STATUS_PROCESS_CRASHED 11) 0
           example_world = Some w' \<and>
        notifications_of 0 (trace w') =
          [NOTIFICATION_CHILD_PROCESS_CRASHED, NOTIFICATION_CHILD_PROCESS_HOST_DISCONNECTED] \<and>
        counter ''ChildProcess.Crashed'' 3 w' = 1 \<and>
        counter ''ChildProcess.CrashedWasAlive'' 3 w' = 0 \<and>
        heap w' 0 = None"
proof -
  have h: "heap example_world 0 = Some example_host"
    by (simp add: example_world_def)
  have s: "GetTerminationStatus (example_os TERMINATION_STATUS_PROCESS_CRASHED 11) example_host =
      (TERMINATION_STATUS_PROCESS_CRASHED, 11)"
    by simp
  have c: "TERMINATION_STATUS_PROCESS_CRASHED = TERMINATION_STATUS_PROCESS_CRASHED \<or>
      TERMINATION_STATUS_PROCESS_CRASHED = TERMINATION_STATUS_ABNORMAL_TERMINATION"
    by simp
  from OnChildDisconnected_crashed[OF h s c, of OS_POSIX]
  obtain w' where w': "OnChildDisconnected OS_POSIX (example_os TERMINATION_STATUS_PROCESS_CRASHED 11) 0
           example_world = Some w' \<and>
     trace w' = trace example_world @
        [DelegateCall (delegate example_host) (Delegate_OnProcessCrashed 11),
         Notified 0 NOTIFICATION_CHILD_PROCESS_CRASHED (data example_host),
         Histogram ''ChildProcess.Crashed'' (data_type (data example_host))] @
        (if disconnect_was_alive example_host
         then [Histogram ''ChildProcess.CrashedWasAlive'' (data_type (data example_host))] else []) @
        [Histogram ''ChildProcess.Disconnected'' (data_type (data example_host)),
         Notified 0 NOTIFICATION_CHILD_PROCESS_HOST_DISCONNECTED (data example_host),
         Destroyed 0] \<and>
     notifications_of 0 (trace w') = notifications_of 0 (trace example_world) @
        [NOTIFICATION_CHILD_PROCESS_CRASHED, NOTIFICATION_CHILD_PROCESS_HOST_DISCONNECTED] \<and>
     counter ''ChildProcess.Crashed'' (data_type (data example_host)) w' =
       Suc (counter ''ChildProcess.Crashed'' (data_type (data example_host)) example_world) \<and>
     counter ''ChildProcess.CrashedWasAlive'' (data_type (data example_host)) w' =
       counter ''ChildProcess.CrashedWasAlive'' (data_type (data example_host)) example_world +
         (if disconnect_was_alive example_host then 1 else 0) \<and>
     heap w' = (heap example_world)(0 := None) \<and> 0 \<notin> set (g_child_process_list w')" ..
  then show ?thesis
    by (intro exI[of _ w']) (simp add: example_world_def example_host_def counter_def)
qed

subsection \<open>The killed branch\<close>

text \<open>
  C4. When \<^verbatim>\<open>OnChildDisconnected\<close> reads \<^verbatim>\<open>TERMINATION_STATUS_PROCESS_WAS_KILLED\<close>, the call
  returns, and what it has added to the log is, in this order: the Killed sample for the
  process type, the KilledWasAlive sample exactly when \<^verbatim>\<open>disconnect_was_alive_\<close> was true at
  entry, the Disconnected sample, the disconnected notification, and the destruction of the
  host. The log holds no call of the delegate's \<^verbatim>\<open>OnProcessCrashed\<close> that it did not hold
  before; the host is off the heap and off the list.
\<close>

theorem OnChildDisconnected_killed:
  assumes "heap w this = Some h"
    and "GetTerminationStatus os h = (TERMINATION_STATUS_PROCESS_WAS_KILLED, exit_code)"
  shows "\<exists>w'. OnChildDisconnected pf os this w = Some w' \<and>
     trace w' = trace w @
        Histogram ''ChildProcess.Killed'' (data_type (data h)) #
        (if disconnect_was_alive h
         then [Histogram ''ChildProcess.KilledWasAlive'' (data_type (data h))] else []) @
        [Histogram ''ChildProcess.Disconnected'' (data_type (data h)),
         Notified this NOTIFICATION_CHILD_PROCESS_HOST_DISCONNECTED (data h),
         Destroyed this] \<and>
     notifications_of this (trace w') = notifications_of this (trace w) @
        [NOTIFICATION_CHILD_PROCESS_HOST_DISCONNECTED] \<and>
     counter ''ChildProcess.Killed'' (data_type (data h)) w' =
       Suc (counter ''ChildProcess.Killed'' (data_type (data h)) w) \<and>
     counter ''ChildProcess.KilledWasAlive'' (data_type (data h)) w' =
       counter ''ChildProcess.KilledWasAlive'' (data_type (data h)) w +
         (if disconnect_was_alive h then 1 else 0) \<and>
     count_list (trace w') (DelegateCall (delegate h) (Delegate_OnProcessCrashed code)) =
       count_list (trace w) (DelegateCall (delegate h) (Delegate_OnProcessCrashed code)) \<and>
     heap w' = (heap w)(this := None) \<and> this \<notin> set (g_child_process_list w')"
proof -
  let ?w1 = "report_killed h w"
  from assms(1) have "heap ?w1 this = Some h" by simp
  then obtain w' where w': "disconnect_and_delete this h ?w1 = Some w'"
    using disconnect_and_delete_Some by blast
  from assms w' have "OnChildDisconnected pf os this w = Some w'"
    by (auto simp: OnChildDisconnected_def)
  moreover note d = disconnect_and_delete_SomeD[OF w']
  ultimately show ?thesis
    by (intro exI[of _ w']) (simp add: counter_def notifications_of_append)
qed

theorem OnChildDisconnected_killed_witness:
  "\<exists>w'. OnChildDisconnected OS_POSIX (example_os TERMINATION_STATUS_PROCESS_WAS_KILLED 9) 0
           example_world_alive = Some w' \<and>
        notifications_of 0 (trace w') = [NOTIFICATION_CHILD_PROCESS_HOST_DISCONNECTED] \<and>
        counter ''ChildProcess.Killed'' 3 w' = 1 \<and>
        counter ''ChildProcess.KilledWasAlive'' 3 w' = 1 \<and>
        count_list (trace w') (DelegateCall 7 (Delegate_OnProcessCrashed 9)) = 0 \<and>
        heap w' 0 = None"
proof -
  have h: "heap example_world_alive 0 = Some example_host_alive"
    by (simp add: example_world_alive_def)
  have s: "GetTerminationStatus (example_os TERMINATION_STATUS_PROCESS_WAS_KILLED 9)
      example_host_alive = (TERMINATION_STATUS_PROCESS_WAS_KILLED, 9)"
    by simp
  from OnChildDisconnected_killed[OF h s, of OS_POSIX 9]
  show ?thesis
    by (auto simp: example_world_alive_def example_host_alive_def example_world_def
         example_host_def counter_def)
qed

subsection \<open>The default branch\<close>

text \<open>
  C10. When the status \<^verbatim>\<open>OnChildDisconnected\<close> reads is none of crashed, abnormal
  termination, killed and still running (so: the child exited normally), the call returns
  and has added to the log the Disconnected sample, the disconnected notification and the
  destruction of the host, and nothing else: no call of the delegate, no crash or kill
  sample. The host is off the heap and off the list.
\<close>

theorem OnChildDisconnected_other_status:
  assumes "heap w this = Some h"
    and "GetTerminationStatus os h = (status, exit_code)"
    and "status \<noteq> TERMINATION_STATUS_PROCESS_CRASHED"
    and "status \<noteq> TERMINATION_STATUS_ABNORMAL_TERMINATION"
    and "status \<noteq> TERMINATION_STATUS_PROCESS_WAS_KILLED"
    and "status \<noteq> TERMINATION_STATUS_STILL_RUNNING"
  shows "\<exists>w'. OnChildDisconnected pf os this w = Some w' \<and>
     trace w' = trace w @
        [Histogram ''ChildProcess.Disconnected'' (data_type (data h)),
         Notified this NOTIFICATION_CHILD_PROCESS_HOST_DISCONNECTED (data h),
         Destroyed this] \<and>
     heap w' = (heap w)(this := None) \<and> this \<notin> set (g_child_process_list w')"
proof -
  from assms(1) obtain w' where w': "disconnect_and_delete this h w = Some w'"
    using disconnect_and_delete_Some by blast
  from assms w' have "OnChildDisconnected pf os this w = Some w'"
    by (cases status) (auto simp: OnChildDisconnected_def)
  moreover note d = disconnect_and_delete_SomeD[OF w']
  ultimately show ?thesis
    by (intro exI[of _ w']) simp
qed

theorem OnChildDisconnected_other_status_witness:
  "\<exists>w'. OnChildDisconnected OS_WIN (example_os TERMINATION_STATUS_NORMAL_TERMINATION 0) 0
           example_world = Some w' \<and>
        trace w' = trace example_world @
          [Histogram ''ChildProcess.Disconnected'' 3,
           Notified 0 NOTIFICATION_CHILD_PROCESS_HOST_DISCONNECTED (data example_host),
           Destroyed 0] \<and>
        heap w' 0 = None \<and> g_child_process_list w' = []"
proof -
  have h: "heap example_world 0 = Some example_host"
    by (simp add: example_world_def)
  have s: "GetTerminationStatus (example_os TERMINATION_STATUS_NORMAL_TERMINATION 0)
      example_host = (TERMINATION_STATUS_NORMAL_TERMINATION, 0)"
    by simp
  from OnChildDisconnected_other_status[OF h s, of OS_WIN]
  obtain w' where w': "OnChildDisconnected OS_WIN (example_os TERMINATION_STATUS_NORMAL_TERMINATION 0) 0
           example_world = Some w'"
     "trace w' = trace example_world @
        [Histogram ''ChildProcess.Disconnected'' (data_type (data example_host)),
         Notified 0 NOTIFICATION_CHILD_PROCESS_HOST_DISCONNECTED (data example_host),
         Destroyed 0]"
     "heap w' = (heap example_world)(0 := None)" "0 \<notin> set (g_child_process_list w')"
    by auto
  from w'(1) have "g_child_process_list w' = []"
    by (auto simp: OnChildDisconnected_def example_world_def example_host_def
        dest!: disconnect_and_delete_SomeD(4))
  with w' show ?thesis
    by (intro exI[of _ w']) (simp add: example_host_def)
qed

subsection \<open>Launch completion\<close>

text \<open>
  C6. \<^verbatim>\<open>OnProcessLaunched\<close> on a live host whose launcher exists always returns. When the
  launcher's handle is null the host deletes itself: the log gains the destruction and
  nothing else (no call of the delegate, neither \<^verbatim>\<open>OnProcessLaunched\<close> nor
  \<^verbatim>\<open>OnProcessCrashed\<close>), the host is off the heap, so that no handle was stored in it, and
  off the list. When the handle is not null, it is stored in \<^verbatim>\<open>data_.handle\<close>, the log gains
  exactly one call of the delegate's \<^verbatim>\<open>OnProcessLaunched\<close>, and the list is as before.
\<close>

theorem OnProcessLaunched_outcome:
  assumes "heap w this = Some h" and "child_process h = Some l"
  shows "(\<exists>w'. OnProcessLaunched kNullProcessHandle this w = Some w' \<and>
            trace w' = trace w @ [Destroyed this] \<and>
            heap w' = (heap w)(this := None) \<and>
            this \<notin> set (g_child_process_list w')) \<and>
         (launcher_handle \<noteq> kNullProcessHandle \<longrightarrow>
           (\<exists>w'. OnProcessLaunched launcher_handle this w = Some w' \<and>
              heap w' = (heap w)(this \<mapsto> h\<lparr>data := (data h)\<lparr>data_handle := launcher_handle\<rparr>\<rparr>) \<and>
              trace w' = trace w @ [DelegateCall (delegate h) Delegate_OnProcessLaunched] \<and>
              g_child_process_list w' = g_child_process_list w))"
proof (intro conjI impI)
  from assms(1) obtain w' where w': "delete_host this w = Some w'"
    using delete_host_Some by blast
  with assms have "OnProcessLaunched kNullProcessHandle this w = Some w'"
    by (simp add: OnProcessLaunched_def)
  with delete_host_SomeD[OF w']
  show "\<exists>w'. OnProcessLaunched kNullProcessHandle this w = Some w' \<and>
            trace w' = trace w @ [Destroyed this] \<and>
            heap w' = (heap w)(this := None) \<and>
            this \<notin> set (g_child_process_list w')"
    by (intro exI[of _ w']) simp
next
  assume "launcher_handle \<noteq> kNullProcessHandle"
  with assms
  show "\<exists>w'. OnProcessLaunched launcher_handle this w = Some w' \<and>
              heap w' = (heap w)(this \<mapsto> h\<lparr>data := (data h)\<lparr>data_handle := launcher_handle\<rparr>\<rparr>) \<and>
              trace w' = trace w @ [DelegateCall (delegate h) Delegate_OnProcessLaunched] \<and>
              g_child_process_list w' = g_child_process_list w"
    by (simp add: OnProcessLaunched_def)
qed

theorem OnProcessLaunched_outcome_witness:
  "(\<exists>w'. OnProcessLaunched 0 0 example_world_launching = Some w' \<and>
      trace w' = trace example_world_launching @ [Destroyed 0] \<and>
      heap w' = Map.empty \<and> g_child_process_list w' = []) \<and>
   (\<exists>w'. OnProcessLaunched 5 0 example_world_launching = Some w' \<and>
      heap w' = [0 \<mapsto> example_host_launching\<lparr>data := (data example_host_launching)\<lparr>data_handle := 5\<rparr>\<rparr>] \<and>
      trace w' = trace example_world_launching @ [DelegateCall 7 Delegate_OnProcessLaunched] \<and>
      g_child_process_list w' = [0])"
proof -
  have h: "heap example_world_launching 0 = Some example_host_launching"
    by (simp add: example_world_launching_def)
  have l: "child_process example_host_launching = Some ChildProcessLauncher"
    by (simp add: example_host_launching_def)
  have n: "(5::nat) \<noteq> kNullProcessHandle"
    by (simp add: kNullProcessHandle_def)
  from OnProcessLaunched_outcome[OF h l, of 5] n
  show ?thesis
    by (auto simp: example_world_launching_def example_host_launching_def kNullProcessHandle_def
        OnProcessLaunched_def delete_host_def)
qed

subsection \<open>Leaving the list\<close>

text \<open>
  C8. \<^verbatim>\<open>ShutdownStarted\<close> and \<^verbatim>\<open>ForceShutdown\<close> on a live host always return, and on return
  the host is not in \<^verbatim>\<open>g_child_process_list\<close>, whatever the state of the child process
  (neither function asks for it). The host is still on the heap, unchanged.
  \<^verbatim>\<open>ShutdownStarted\<close> adds nothing to the log: it calls neither the launcher nor the channel
  host. \<^verbatim>\<open>ForceShutdown\<close> adds one call, \<^verbatim>\<open>child_process_host_->ForceShutdown()\<close>.
\<close>

theorem shutdown_unregisters:
  assumes "heap w this = Some h"
  shows "(\<exists>w'. ShutdownStarted this w = Some w' \<and>
            this \<notin> set (g_child_process_list w') \<and>
            g_child_process_list w' = removeAll this (g_child_process_list w) \<and>
            heap w' = heap w \<and> trace w' = trace w) \<and>
         (\<exists>w'. ForceShutdown this w = Some w' \<and>
            this \<notin> set (g_child_process_list w') \<and>
            g_child_process_list w' = removeAll this (g_child_process_list w) \<and>
            heap w' = heap w \<and> trace w' = trace w @ [HostCall this Host_ForceShutdown])"
  using assms by (simp add: ShutdownStarted_def ForceShutdown_def)

theorem shutdown_unregisters_witness:
  "(\<exists>w'. ShutdownStarted 0 example_world = Some w' \<and> g_child_process_list w' = [] \<and>
      heap w' 0 = Some example_host \<and> trace w' = trace example_world) \<and>
   (\<exists>w'. ForceShutdown 0 example_world = Some w' \<and> g_child_process_list w' = [] \<and>
      heap w' 0 = Some example_host \<and>
      trace w' = trace example_world @ [HostCall 0 Host_ForceShutdown])"
proof -
  have h: "heap example_world 0 = Some example_host"
    by (simp add: example_world_def)
  from shutdown_unregisters[OF h]
  show ?thesis
    by (auto simp: example_world_def)
qed

subsection \<open>The still-running branch\<close>

text \<open>
  C2. Let \<^verbatim>\<open>OnChildDisconnected\<close> run on a live host and read
  \<^verbatim>\<open>TERMINATION_STATUS_STILL_RUNNING\<close>.
  If \<^verbatim>\<open>disconnect_was_alive_\<close> is false, the call returns with the flag set, the host still
  alive and on the list, and the log longer by exactly one entry, the scheduled re-check:
  \<^verbatim>\<open>StartWatching\<close> on the process handle under \<^verbatim>\<open>OS_WIN\<close>, a task delayed by
  \<open>kExitCodeWaitMs\<close> elsewhere. No host has a notification more than before.
  If the flag is already true, nothing is scheduled: the call adds the DisconnectedAlive and
  Disconnected samples, the disconnected notification, and deletes the host.
  And over a whole run from the initial world, whatever its calls, no host has more than
  one re-check scheduled.
\<close>

theorem OnChildDisconnected_still_running:
  assumes "heap w this = Some h"
    and "fst (GetTerminationStatus os h) = TERMINATION_STATUS_STILL_RUNNING"
  shows "(\<not> disconnect_was_alive h \<longrightarrow>
           (\<exists>w'. OnChildDisconnected pf os this w = Some w' \<and>
              heap w' = (heap w)(this \<mapsto> h\<lparr>disconnect_was_alive := True\<rparr>) \<and>
              g_child_process_list w' = g_child_process_list w \<and>
              trace w' = trace w @
                [case pf of
                   OS_WIN \<Rightarrow> StartWatching this (data_handle (data h))
                 | OS_POSIX \<Rightarrow> PostDelayedTask this kExitCodeWaitMs] \<and>
              retries_of this (trace w') = Suc (retries_of this (trace w)) \<and>
              (\<forall>p. notifications_of p (trace w') = notifications_of p (trace w)))) \<and>
         (disconnect_was_alive h \<longrightarrow>
           (\<exists>w'. OnChildDisconnected pf os this w = Some w' \<and>
              trace w' = trace w @
                [Histogram ''ChildProcess.DisconnectedAlive'' (data_type (data h)),
                 Histogram ''ChildProcess.Disconnected'' (data_type (data h)),
                 Notified this NOTIFICATION_CHILD_PROCESS_HOST_DISCONNECTED (data h),
                 Destroyed this] \<and>
              retries_of this (trace w') = retries_of this (trace w) \<and>
              heap w' = (heap w)(this := None) \<and>
              this \<notin> set (g_child_process_list w'))) \<and>
         (\<forall>cs w1 p. run pf cs initial_world = Some w1 \<longrightarrow> retries_of p (trace w1) \<le> 1)"
proof (intro conjI impI allI)
  obtain exit_code where st:
    "GetTerminationStatus os h = (TERMINATION_STATUS_STILL_RUNNING, exit_code)"
    using assms(2) by (cases "GetTerminationStatus os h") simp
  {
    assume "\<not> disconnect_was_alive h"
    with assms(1) st
    have "OnChildDisconnected pf os this w = Some (wait_for_exit_code pf this h w)"
      by (simp add: OnChildDisconnected_def)
    then show "\<exists>w'. OnChildDisconnected pf os this w = Some w' \<and>
              heap w' = (heap w)(this \<mapsto> h\<lparr>disconnect_was_alive := True\<rparr>) \<and>
              g_child_process_list w' = g_child_process_list w \<and>
              trace w' = trace w @
                [case pf of
                   OS_WIN \<Rightarrow> StartWatching this (data_handle (data h))
                 | OS_POSIX \<Rightarrow> PostDelayedTask this kExitCodeWaitMs] \<and>
              retries_of this (trace w') = Suc (retries_of this (trace w)) \<and>
              (\<forall>p. notifications_of p (trace w') = notifications_of p (trace w))"
      by (cases pf) (simp_all add: retries_of_append notifications_of_append)
  }
  {
    assume alive: "disconnect_was_alive h"
    let ?w1 = "UMA_HISTOGRAM_ENUMERATION ''ChildProcess.DisconnectedAlive'' (data_type (data h)) w"
    from assms(1) have "heap ?w1 this = Some h" by simp
    then obtain w' where w': "disconnect_and_delete this h ?w1 = Some w'"
      using disconnect_and_delete_Some by blast
    from assms(1) st alive w' have "OnChildDisconnected pf os this w = Some w'"
      by (simp add: OnChildDisconnected_def)
    with disconnect_and_delete_SomeD[OF w']
    show "\<exists>w'. OnChildDisconnected pf os this w = Some w' \<and>
              trace w' = trace w @
                [Histogram ''ChildProcess.DisconnectedAlive'' (data_type (data h)),
                 Histogram ''ChildProcess.Disconnected'' (data_type (data h)),
                 Notified this NOTIFICATION_CHILD_PROCESS_HOST_DISCONNECTED (data h),
                 Destroyed this] \<and>
              retries_of this (trace w') = retries_of this (trace w) \<and>
              heap w' = (heap w)(this := None) \<and>
              this \<notin> set (g_child_process_list w')"
      by (intro exI[of _ w']) (simp add: retries_of_append)
  }
  {
    fix cs w1 p
    assume "run pf cs initial_world = Some w1"
    from run_retried_once[OF this wf_initial retried_once_initial, of p]
    show "retries_of p (trace w1) \<le> 1"
      by (auto simp: retried_once_def)
  }
qed

theorem OnChildDisconnected_still_running_witness:
  "(\<exists>w'. OnChildDisconnected OS_POSIX (example_os TERMINATION_STATUS_STILL_RUNNING 0) 0
           example_world = Some w' \<and>
      trace w' = trace example_world @ [PostDelayedTask 0 250] \<and>
      heap w' = [0 \<mapsto> example_host\<lparr>disconnect_was_alive := True\<rparr>] \<and>
      notifications_of 0 (trace w') = []) \<and>
   (\<exists>w'. OnChildDisconnected OS_WIN (example_os TERMINATION_STATUS_STILL_RUNNING 0) 0
           example_world = Some w' \<and>
      trace w' = trace example_world @ [StartWatching 0 5] \<and>
      notifications_of 0 (trace w') = []) \<and>
   (\<exists>w'. OnChildDisconnected OS_POSIX (example_os TERMINATION_STATUS_STILL_RUNNING 0) 0
           example_world_alive = Some w' \<and>
      notifications_of 0 (trace w') = [NOTIFICATION_CHILD_PROCESS_HOST_DISCONNECTED] \<and>
      retries_of 0 (trace w') = 1 \<and> heap w' 0 = None) \<and>
   retries_of 0 (trace example_world_alive) \<le> 1"
proof -
  have h: "heap example_world 0 = Some example_host"
    by (simp add: example_world_def)
  have h': "heap example_world_alive 0 = Some example_host_alive"
    by (simp add: example_world_alive_def)
  have s: "fst (GetTerminationStatus (example_os TERMINATION_STATUS_STILL_RUNNING 0) hh) =
      TERMINATION_STATUS_STILL_RUNNING" for hh
    by simp
  have f: "\<not> disconnect_was_alive example_host" "disconnect_was_alive example_host_alive"
    by (simp_all add: example_host_def example_host_alive_def)
  note a = OnChildDisconnected_still_running[OF h s, of OS_POSIX, THEN conjunct1, rule_format, OF f(1)]
  note b = OnChildDisconnected_still_running[OF h s, of OS_WIN, THEN conjunct1, rule_format, OF f(1)]
  note c = OnChildDisconnected_still_running[OF h' s, of OS_POSIX, THEN conjunct2,
      THEN conjunct1, rule_format, OF f(2)]
  note d = OnChildDisconnected_still_running[OF h s, of OS_POSIX, THEN conjunct2,
      THEN conjunct2, rule_format, OF example_world_alive_run, of 0]
  from a have 1: "\<exists>w'. OnChildDisconnected OS_POSIX (example_os TERMINATION_STATUS_STILL_RUNNING 0) 0
           example_world = Some w' \<and>
      trace w' = trace example_world @ [PostDelayedTask 0 250] \<and>
      heap w' = [0 \<mapsto> example_host\<lparr>disconnect_was_alive := True\<rparr>] \<and>
      notifications_of 0 (trace w') = []"
    by (auto simp: example_world_def example_host_def kExitCodeWaitMs_def)
  from b have 2: "\<exists>w'. OnChildDisconnected OS_WIN (example_os TERMINATION_STATUS_STILL_RUNNING 0) 0
           example_world = Some w' \<and>
      trace w' = trace example_world @ [StartWatching 0 5] \<and>
      notifications_of 0 (trace w') = []"
    by (auto simp: example_world_def example_host_def)
  from c have 3: "\<exists>w'. OnChildDisconnected OS_POSIX (example_os TERMINATION_STATUS_STILL_RUNNING 0) 0
           example_world_alive = Some w' \<and>
      notifications_of 0 (trace w') = [NOTIFICATION_CHILD_PROCESS_HOST_DISCONNECTED] \<and>
      retries_of 0 (trace w') = 1 \<and> heap w' 0 = None"
    by (auto simp: example_world_alive_def example_world_def example_host_alive_def
        example_host_def)
  from 1 2 3 d show ?thesis by blast
qed

subsection \<open>The terminal notification\<close>

text \<open>
  C1, as stated, fails: a host can be destroyed without ever having notified
  disconnected. Under Windows, when the watched handle is signaled and the exit code is
  \<open>STILL_ACTIVE\<close>, \<^verbatim>\<open>OnWaitableEventSignaled\<close> runs \<^verbatim>\<open>delete this\<close> and nothing else; on every
  platform, \<^verbatim>\<open>OnProcessLaunched\<close> with a null handle does the same. In both lifetimes host 0 is
  destroyed and its notifications are none.
\<close>

theorem disconnected_exactly_once_counterexample:
  "destroyed_after OS_WIN lifetime_still_active 0 \<and>
   notifications_after OS_WIN lifetime_still_active 0 = Some [] \<and>
   destroyed_after OS_POSIX lifetime_launch_failed 0 \<and>
   notifications_after OS_POSIX lifetime_launch_failed 0 = Some []"
  by (simp add: destroyed_after_def notifications_after_def lifetime_still_active_def
      lifetime_launch_failed_def eval_defs)

text \<open>
  C1, amended. Over any run from the initial world, however often
  \<^verbatim>\<open>OnChildDisconnected\<close> is called, a host has notified disconnected exactly once if some
  call of the run ran \<^verbatim>\<open>OnChildDisconnected\<close> on it to its tail, and not at all otherwise.
  Where it has, that notification is the last of its notifications and the host has been
  deleted. So a host that \<^verbatim>\<open>OnChildDisconnected\<close> destroyed has notified disconnected exactly
  once, and a host destroyed in any other way (a launch that gave no handle,
  \<^verbatim>\<open>TerminateAll\<close>, \<^verbatim>\<open>delete\<close> by its owner, the exit code \<open>STILL_ACTIVE\<close> under Windows) has
  not notified it.
\<close>

theorem disconnected_once_by_OnChildDisconnected:
  assumes "run pf cs initial_world = Some w"
  shows "count_list (notifications_of p (trace w)) NOTIFICATION_CHILD_PROCESS_HOST_DISCONNECTED =
           (if disconnected_in_run pf p cs initial_world then 1 else 0) \<and>
         (NOTIFICATION_CHILD_PROCESS_HOST_DISCONNECTED \<in> set (notifications_of p (trace w)) \<longrightarrow>
            last (notifications_of p (trace w)) = NOTIFICATION_CHILD_PROCESS_HOST_DISCONNECTED \<and>
            heap w p = None)"
proof -
  let ?D = NOTIFICATION_CHILD_PROCESS_HOST_DISCONNECTED
  let ?ns = "notifications_of p (trace w)"
  from run_disconnected[OF assms wf_initial, of p]
  have cnt: "count_list ?ns ?D = (if disconnected_in_run pf p cs initial_world then 1 else 0)"
    by (simp add: initial_world_def)
  from run_terminal_once[OF assms wf_initial terminal_once_initial, of p]
  have inv: "terminal_once p w" .
  have "last ?ns = ?D \<and> heap w p = None" if "?D \<in> set ?ns"
  proof -
    from that have "count_list ?ns ?D \<noteq> 0" by (simp add: count_list_0_iff)
    with inv that show ?thesis
      unfolding terminal_once_def Let_def by auto
  qed
  with cnt show ?thesis by blast
qed

theorem disconnected_once_by_OnChildDisconnected_witness:
  "(\<exists>w. run OS_POSIX lifetime_crashed initial_world = Some w \<and>
      disconnected_in_run OS_POSIX 0 lifetime_crashed initial_world \<and>
      notifications_of 0 (trace w) =
        [NOTIFICATION_CHILD_PROCESS_HOST_CONNECTED, NOTIFICATION_CHILD_PROCESS_CRASHED,
         NOTIFICATION_CHILD_PROCESS_HOST_DISCONNECTED] \<and>
      count_list (notifications_of 0 (trace w)) NOTIFICATION_CHILD_PROCESS_HOST_DISCONNECTED = 1 \<and>
      last (notifications_of 0 (trace w)) = NOTIFICATION_CHILD_PROCESS_HOST_DISCONNECTED \<and>
      heap w 0 = None) \<and>
   (\<exists>w. run OS_POSIX lifetime_terminate_all initial_world = Some w \<and>
      \<not> disconnected_in_run OS_POSIX 0 lifetime_terminate_all initial_world \<and>
      Destroyed 0 \<in> set (trace w) \<and>
      count_list (notifications_of 0 (trace w)) NOTIFICATION_CHILD_PROCESS_HOST_DISCONNECTED = 0) \<and>
   (\<exists>w. run OS_POSIX lifetime_owner_delete initial_world = Some w \<and>
      \<not> disconnected_in_run OS_POSIX 0 lifetime_owner_delete initial_world \<and>
      Destroyed 0 \<in> set (trace w) \<and>
      count_list (notifications_of 0 (trace w)) NOTIFICATION_CHILD_PROCESS_HOST_DISCONNECTED = 0)"
proof -
  obtain w1 where w1: "run OS_POSIX lifetime_crashed initial_world = Some w1"
    "notifications_of 0 (trace w1) =
       [NOTIFICATION_CHILD_PROCESS_HOST_CONNECTED, NOTIFICATION_CHILD_PROCESS_CRASHED,
        NOTIFICATION_CHILD_PROCESS_HOST_DISCONNECTED]"
    by (simp add: lifetime_crashed_def eval_defs)
  have d1: "disconnected_in_run OS_POSIX 0 lifetime_crashed initial_world"
    by (simp add: lifetime_crashed_def tail_reached_def eval_defs)
  obtain w2 where w2: "run OS_POSIX lifetime_terminate_all initial_world = Some w2"
    "Destroyed 0 \<in> set (trace w2)"
    by (simp add: lifetime_terminate_all_def TerminateAll_def eval_defs)
  have d2: "\<not> disconnected_in_run OS_POSIX 0 lifetime_terminate_all initial_world"
    by (simp add: lifetime_terminate_all_def TerminateAll_def tail_reached_def eval_defs)
  obtain w3 where w3: "run OS_POSIX lifetime_owner_delete initial_world = Some w3"
    "Destroyed 0 \<in> set (trace w3)"
    by (simp add: lifetime_owner_delete_def eval_defs)
  have d3: "\<not> disconnected_in_run OS_POSIX 0 lifetime_owner_delete initial_world"
    by (simp add: lifetime_owner_delete_def tail_reached_def eval_defs)
  from disconnected_once_by_OnChildDisconnected[OF w1(1), of 0] w1 d1
  have 1: "\<exists>w. run OS_POSIX lifetime_crashed initial_world = Some w \<and>
      disconnected_in_run OS_POSIX 0 lifetime_crashed initial_world \<and>
      notifications_of 0 (trace w) =
        [NOTIFICATION_CHILD_PROCESS_HOST_CONNECTED, NOTIFICATION_CHILD_PROCESS_CRASHED,
         NOTIFICATION_CHILD_PROCESS_HOST_DISCONNECTED] \<and>
      count_list (notifications_of 0 (trace w)) NOTIFICATION_CHILD_PROCESS_HOST_DISCONNECTED = 1 \<and>
      last (notifications_of 0 (trace w)) = NOTIFICATION_CHILD_PROCESS_HOST_DISCONNECTED \<and>
      heap w 0 = None"
    by (intro exI[of _ w1]) simp
  from disconnected_once_by_OnChildDisconnected[OF w2(1), of 0] w2 d2
  have 2: "\<exists>w. run OS_POSIX lifetime_terminate_all initial_world = Some w \<and>
      \<not> disconnected_in_run OS_POSIX 0 lifetime_terminate_all initial_world \<and>
      Destroyed 0 \<in> set (trace w) \<and>
      count_list (notifications_of 0 (trace w)) NOTIFICATION_CHILD_PROCESS_HOST_DISCONNECTED = 0"
    by (intro exI[of _ w2]) simp
  from disconnected_once_by_OnChildDisconnected[OF w3(1), of 0] w3 d3
  have 3: "\<exists>w. run OS_POSIX lifetime_owner_delete initial_world = Some w \<and>
      \<not> disconnected_in_run OS_POSIX 0 lifetime_owner_delete initial_world \<and>
      Destroyed 0 \<in> set (trace w) \<and>
      count_list (notifications_of 0 (trace w)) NOTIFICATION_CHILD_PROCESS_HOST_DISCONNECTED = 0"
    by (intro exI[of _ w3]) simp
  from 1 2 3 show ?thesis by blast
qed

subsection \<open>The flag\<close>

text \<open>
  C5. Take a host from its construction. \<^verbatim>\<open>disconnect_was_alive_\<close> is false when the
  constructor returns. After any run of calls that leaves the host alive, the flag is true
  if and only if one of these calls observed "still running" on the host (ran
  \<^verbatim>\<open>OnChildDisconnected\<close> on it and read \<^verbatim>\<open>TERMINATION_STATUS_STILL_RUNNING\<close>): false until
  the first such observation, true from it on. And once true it is true after any further
  run: no call resets it.
\<close>

theorem disconnect_was_alive_history:
  assumes "Create t dlg w0 = (p, w)"
    and "run pf cs w = Some w1" and "heap w1 p = Some h1"
    and "run pf cs' w1 = Some w2" and "heap w2 p = Some h2"
  shows "(\<exists>h. heap w p = Some h \<and> \<not> disconnect_was_alive h) \<and>
         disconnect_was_alive h1 = observed_still_running pf p cs w \<and>
         (disconnect_was_alive h1 \<longrightarrow> disconnect_was_alive h2)"
proof -
  note c = Create_new_host[OF assms(1)]
  from c(3) obtain h where h: "heap w p = Some h" "\<not> disconnect_was_alive h" by blast
  from c(2) have lt: "p < next_object w" by simp
  from run_fields(1)[OF assms(2) h(1) assms(3) lt] h(2)
  have 1: "disconnect_was_alive h1 = observed_still_running pf p cs w" by simp
  from run_next_object[OF assms(2)] lt have lt1: "p < next_object w1" by simp
  from run_fields(1)[OF assms(4) assms(3) assms(5) lt1]
  have 2: "disconnect_was_alive h1 \<longrightarrow> disconnect_was_alive h2" by simp
  from h 1 2 show ?thesis by blast
qed

theorem disconnect_was_alive_history_witness:
  "\<exists>w1 h1 w2 h2.
     run OS_POSIX [Call_SetHandle 0 5,
        Call_OnChildDisconnected 0 (example_os TERMINATION_STATUS_STILL_RUNNING 0)]
       (snd (Create 3 7 initial_world)) = Some w1 \<and>
     heap w1 0 = Some h1 \<and>
     run OS_POSIX [Call_SetName 0 ''gpu'', Call_ShutdownStarted 0] w1 = Some w2 \<and>
     heap w2 0 = Some h2 \<and>
     disconnect_was_alive h1 \<and> disconnect_was_alive h2 \<and>
     observed_still_running OS_POSIX 0 [Call_SetHandle 0 5,
        Call_OnChildDisconnected 0 (example_os TERMINATION_STATUS_STILL_RUNNING 0)]
       (snd (Create 3 7 initial_world)) \<and>
     \<not> observed_still_running OS_POSIX 0 [Call_SetHandle 0 5] (snd (Create 3 7 initial_world))"
proof -
  let ?w = "snd (Create 3 7 initial_world)"
  let ?cs = "[Call_SetHandle 0 5,
        Call_OnChildDisconnected 0 (example_os TERMINATION_STATUS_STILL_RUNNING 0)]"
  let ?h2 = "example_host_alive\<lparr>data := (data example_host_alive)\<lparr>data_name := ''gpu''\<rparr>\<rparr>"
  let ?w2 = "example_world_alive\<lparr>heap := [0 \<mapsto> ?h2], g_child_process_list := []\<rparr>"
  have c: "Create 3 7 initial_world = (0, ?w)"
    by (simp add: prod_eq_iff initial_world_def)
  have r1: "run OS_POSIX ?cs ?w = Some example_world_alive"
    using example_world_alive_run by simp
  have h1: "heap example_world_alive 0 = Some example_host_alive"
    by (simp add: example_world_alive_def)
  have r2: "run OS_POSIX [Call_SetName 0 ''gpu'', Call_ShutdownStarted 0] example_world_alive =
      Some ?w2"
    by (simp add: SetName_def ShutdownStarted_def store_def example_world_alive_def
        example_world_def)
  have h2: "heap ?w2 0 = Some ?h2" by simp
  have c0: "Create 3 7 initial_world = (0, ?w)" by (rule c)
  have r0: "run OS_POSIX [Call_SetHandle 0 5] ?w = Some example_world"
    using example_world_run[of OS_POSIX] by simp
  have h0: "heap example_world 0 = Some example_host" by (simp add: example_world_def)
  have r00: "run OS_POSIX [] example_world = Some example_world" by simp
  from disconnect_was_alive_history[OF c r1 h1 r2 h2]
    disconnect_was_alive_history[OF c0 r0 h0 r00 h0]
  have "disconnect_was_alive example_host_alive = observed_still_running OS_POSIX 0 ?cs ?w"
    "disconnect_was_alive example_host_alive \<longrightarrow> disconnect_was_alive ?h2"
    "disconnect_was_alive example_host =
       observed_still_running OS_POSIX 0 [Call_SetHandle 0 5] ?w"
    by blast+
  moreover have "disconnect_was_alive example_host_alive" "\<not> disconnect_was_alive example_host"
    by (simp_all add: example_host_alive_def example_host_def)
  ultimately show ?thesis
    using r1 h1 r2 h2 by blast
qed

subsection \<open>The handle\<close>

text \<open>
  C9, as stated, fails: \<^verbatim>\<open>SetHandle\<close> assigns unconditionally, so a second call overwrites
  the handle the first one stored. After \<^verbatim>\<open>SetHandle(5)\<close> the handle of host 0 is 5, after
  \<^verbatim>\<open>SetHandle(5); SetHandle(6)\<close> it is 6.
\<close>

theorem handle_set_once_counterexample:
  "handle_after OS_POSIX [Call_Create 3 7, Call_SetHandle 0 5] 0 = Some 5 \<and>
   handle_after OS_POSIX [Call_Create 3 7, Call_SetHandle 0 5, Call_SetHandle 0 6] 0 = Some 6"
  by (simp add: handle_after_def eval_defs)

text \<open>
  C9, amended. The handle is null when the constructor returns, and after any run of calls
  that leaves the host alive it is the value of the latest write to it, where the only
  writes are \<^verbatim>\<open>SetHandle\<close> on the host and \<^verbatim>\<open>OnProcessLaunched\<close> on the host with a handle
  that is not null: it stays null while there is none, and no other call changes it.
\<close>

theorem handle_is_latest_write:
  assumes "Create t dlg w0 = (p, w)"
    and "run pf cs w = Some w'" and "heap w' p = Some h'"
  shows "data_handle (data h') = last (kNullProcessHandle # handle_writes p cs)"
proof -
  note c = Create_new_host[OF assms(1)]
  from c(3) obtain h where h: "heap w p = Some h" "data_handle (data h) = kNullProcessHandle"
    by blast
  from c(2) have lt: "p < next_object w" by simp
  from run_fields(2)[OF assms(2) h(1) assms(3) lt] h(2) show ?thesis by simp
qed

theorem handle_is_latest_write_witness:
  "\<exists>w' h'. run OS_POSIX [Call_Launch 0, Call_SetName 0 ''gpu'', Call_OnProcessLaunched 0 5,
               Call_OnChannelConnected 0 42] (snd (Create 3 7 initial_world)) = Some w' \<and>
     heap w' 0 = Some h' \<and> data_handle (data h') = 5 \<and>
     handle_writes 0 [Call_Launch 0, Call_SetName 0 ''gpu'', Call_OnProcessLaunched 0 5,
               Call_OnChannelConnected 0 42] = [5]"
proof -
  let ?w = "snd (Create 3 7 initial_world)"
  let ?cs = "[Call_Launch 0, Call_SetName 0 ''gpu'', Call_OnProcessLaunched 0 5,
               Call_OnChannelConnected 0 42]"
  have c: "Create 3 7 initial_world = (0, ?w)"
    by (simp add: prod_eq_iff initial_world_def)
  obtain w' h' where r: "run OS_POSIX ?cs ?w = Some w'" and h: "heap w' 0 = Some h'"
    by (simp add: eval_defs)
  have ws: "handle_writes 0 ?cs = [5]"
    by (simp add: handle_writes_def kNullProcessHandle_def)
  from handle_is_latest_write[OF c r h] ws r h show ?thesis
    by (intro exI[of _ w'] exI[of _ h']) simp
qed

subsection \<open>TerminateAll\<close>

text \<open>
  C7. In any world reached by a run from the initial world, \<^verbatim>\<open>TerminateAll\<close> returns, and
  it has destroyed the hosts of \<^verbatim>\<open>g_child_process_list\<close> as the list stood at the call:
  the log gains one destruction for each entry of the list, in the order of the list, and
  the entries are distinct, so that each host on it is deleted once, none skipped and none
  twice. Each of them was alive and is off the heap, every other host is untouched, and the
  live list, from which each destructor removed its host while the copy was iterated, is
  empty.
\<close>

theorem TerminateAll_destroys_registered:
  assumes "run pf cs initial_world = Some w"
  shows "\<exists>w'. TerminateAll w = Some w' \<and>
           trace w' = trace w @ map Destroyed (g_child_process_list w) \<and>
           distinct (g_child_process_list w) \<and>
           (\<forall>p \<in> set (g_child_process_list w). heap w p \<noteq> None \<and> heap w' p = None) \<and>
           (\<forall>p. p \<notin> set (g_child_process_list w) \<longrightarrow> heap w' p = heap w p) \<and>
           g_child_process_list w' = []"
proof -
  let ?copy = "g_child_process_list w"
  from run_wf[OF assms wf_initial] have wf: "wf_world w" .
  then have d: "distinct ?copy" and live: "\<forall>p \<in> set ?copy. heap w p \<noteq> None"
    unfolding wf_world_def by simp_all
  from STLDeleteElements_Some[OF d live] obtain w' where
    w': "STLDeleteElements ?copy w = Some w'" by blast
  note s = STLDeleteElements_SomeD[OF w']
  have "TerminateAll w = Some w'"
    using w' by (simp add: TerminateAll_def)
  moreover have "g_child_process_list w' = []"
    using s(3) by simp
  ultimately show ?thesis
    using s(1,2) d live by (intro exI[of _ w']) simp
qed

theorem TerminateAll_destroys_registered_witness:
  "\<exists>w w'. run OS_POSIX [Call_Create 3 7, Call_Create 4 8, Call_Create 5 9,
              Call_ShutdownStarted 1] initial_world = Some w \<and>
     g_child_process_list w = [0, 2] \<and>
     TerminateAll w = Some w' \<and>
     trace w' = trace w @ [Destroyed 0, Destroyed 2] \<and>
     heap w' 0 = None \<and> heap w' 2 = None \<and> heap w' 1 = heap w 1 \<and> heap w 1 \<noteq> None \<and>
     g_child_process_list w' = []"
proof -
  let ?cs = "[Call_Create 3 7, Call_Create 4 8, Call_Create 5 9, Call_ShutdownStarted 1]"
  obtain w where w: "run OS_POSIX ?cs initial_world = Some w"
    and l: "g_child_process_list w = [0, 2]" and h: "heap w 1 \<noteq> None"
    by (simp add: eval_defs)
  from TerminateAll_destroys_registered[OF w] obtain w' where
    w': "TerminateAll w = Some w' \<and>
           trace w' = trace w @ map Destroyed (g_child_process_list w) \<and>
           distinct (g_child_process_list w) \<and>
           (\<forall>p \<in> set (g_child_process_list w). heap w p \<noteq> None \<and> heap w' p = None) \<and>
           (\<forall>p. p \<notin> set (g_child_process_list w) \<longrightarrow> heap w' p = heap w p) \<and>
           g_child_process_list w' = []" ..
  with w l h show ?thesis
    by (intro exI[of _ w] exI[of _ w']) simp
qed

end
